theory Spec2Isabelle
  imports Main
begin

section \<open>Strings\<close>

text \<open>
  A Python \<open>str\<close> is a sequence of Unicode code points; a code point is a natural number.
  \<open>py\<close> embeds a literal.
\<close>

type_synonym pystr = "nat list"

definition py :: "string \<Rightarrow> pystr" where
  "py s = map of_char s"

text \<open>\<open>[A-Z]\<close> of a \<open>str\<close> pattern: the code points 65 to 90.\<close>

definition is_upper :: "nat \<Rightarrow> bool" where
  "is_upper c \<longleftrightarrow> 65 \<le> c \<and> c \<le> 90"

text \<open>
  The whitespace of \<open>str.strip()\<close> and of \<open>\s\<close> in a \<open>str\<close> pattern (both ask
  \<open>Py_UNICODE_ISSPACE\<close>): tab to carriage return, the four separators 28 to 31, the space,
  NEL, the no-break space and the Unicode space separators.
\<close>

definition is_space :: "nat \<Rightarrow> bool" where
  "is_space c \<longleftrightarrow>
     (9 \<le> c \<and> c \<le> 13) \<or> (28 \<le> c \<and> c \<le> 32) \<or> c = 133 \<or> c = 160 \<or> c = 5760 \<or>
     (8192 \<le> c \<and> c \<le> 8202) \<or> c = 8232 \<or> c = 8233 \<or> c = 8239 \<or> c = 8287 \<or>
     c = 12288"

definition colon :: nat where
  "colon = 58"

definition period :: nat where
  "period = 46"

text \<open>\<open>s.strip()\<close>: leading and trailing whitespace removed.\<close>

definition strip :: "pystr \<Rightarrow> pystr" where
  "strip s = rev (dropWhile is_space (rev (dropWhile is_space s)))"

text \<open>\<open>sep.join(parts)\<close>.\<close>

fun join :: "pystr \<Rightarrow> pystr list \<Rightarrow> pystr" where
  "join sep [] = []"
| "join sep [x] = x"
| "join sep (x # y # ys) = x @ sep @ join sep (y # ys)"

text \<open>
  What the output file can take. The CSV files are opened as text with no encoding named;
  the encoding is taken to be UTF-8, which has bytes for every code point except the
  surrogates, D800 to DFFF.
\<close>

definition encodable :: "pystr \<Rightarrow> bool" where
  "encodable s = list_all (\<lambda>c. \<not> (55296 \<le> c \<and> c \<le> 57343)) s"

section \<open>The pattern of \<open>pdf_scraper.py\<close>\<close>

text \<open>
  \<^verbatim>\<open>pattern = re.compile(r"([A-Z\s]+):\s+([^.]+)\.")\<close>

  The two character classes of the pattern, besides \<open>\s\<close>.
\<close>

definition in_term_class :: "nat \<Rightarrow> bool" where
  "in_term_class c \<longleftrightarrow> is_upper c \<or> is_space c"

definition in_def_class :: "nat \<Rightarrow> bool" where
  "in_def_class c \<longleftrightarrow> c \<noteq> period"

text \<open>
  A greedy \<open>+\<close> over a character class: the ways of splitting \<open>s\<close> after a non-empty
  run of class characters, the longest run first, as the backtracking matcher tries them.
\<close>

definition plus_splits :: "(nat \<Rightarrow> bool) \<Rightarrow> pystr \<Rightarrow> (pystr \<times> pystr) list" where
  "plus_splits P s =
     map (\<lambda>n. (take n s, drop n s)) (rev [1..<Suc (length (takeWhile P s))])"

text \<open>Backtracking: the first alternative whose continuation succeeds.\<close>

fun first_some :: "('a \<Rightarrow> 'b option) \<Rightarrow> 'a list \<Rightarrow> 'b option" where
  "first_some f [] = None"
| "first_some f (x # xs) = (case f x of Some y \<Rightarrow> Some y | None \<Rightarrow> first_some f xs)"

text \<open>A literal character of the pattern.\<close>

definition literal :: "nat \<Rightarrow> pystr \<Rightarrow> pystr option" where
  "literal c s = (case s of [] \<Rightarrow> None | d # r \<Rightarrow> if d = c then Some r else None)"

text \<open>
  The pattern matched at the start of \<open>s\<close>: group 1, group 2 and the text after the match.
\<close>

definition match_here :: "pystr \<Rightarrow> (pystr \<times> pystr \<times> pystr) option" where
  "match_here s =
     first_some (\<lambda>(g1, r1).
       case literal colon r1 of
         None \<Rightarrow> None
       | Some r2 \<Rightarrow>
           first_some (\<lambda>(ws, r3).
             first_some (\<lambda>(g2, r4).
               case literal period r4 of
                 None \<Rightarrow> None
               | Some r5 \<Rightarrow> Some (g1, g2, r5))
             (plus_splits in_def_class r3))
           (plus_splits is_space r2))
     (plus_splits in_term_class s)"

lemma literal_shorter: "literal c s = Some r \<Longrightarrow> length r < length s"
  by (auto simp: literal_def split: list.splits if_splits)

lemma first_some_SomeD: "first_some f xs = Some y \<Longrightarrow> \<exists>x \<in> set xs. f x = Some y"
  by (induction xs) (auto split: option.splits)

lemma plus_splits_shorter: "(a, b) \<in> set (plus_splits P s) \<Longrightarrow> length b \<le> length s"
  by (auto simp: plus_splits_def)

lemma match_here_shorter:
  assumes "match_here s = Some (t, d, r)"
  shows "length r < length s"
proof -
  from assms obtain g1 r1 r2 where a: "(g1, r1) \<in> set (plus_splits in_term_class s)"
    and b: "literal colon r1 = Some r2"
    and c: "first_some (\<lambda>(ws, r3).
             first_some (\<lambda>(g2, r4).
               case literal period r4 of None \<Rightarrow> None
               | Some r5 \<Rightarrow> Some (g1, g2, r5))
             (plus_splits in_def_class r3))
           (plus_splits is_space r2) = Some (t, d, r)"
    unfolding match_here_def by (fastforce dest!: first_some_SomeD split: option.splits)
  from c obtain ws r3 g2 r4 where d: "(ws, r3) \<in> set (plus_splits is_space r2)"
    and e: "(g2, r4) \<in> set (plus_splits in_def_class r3)" and f: "literal period r4 = Some r"
    by (fastforce dest!: first_some_SomeD split: option.splits)
  from a b d e f show ?thesis
    by (metis literal_shorter plus_splits_shorter order_less_le_trans less_trans)
qed

text \<open>
  \<open>pattern.findall(text)\<close>: scan from the left; a match is recorded and the scan resumes
  after it, a position with no match is skipped.
\<close>

function findall :: "pystr \<Rightarrow> (pystr \<times> pystr) list" where
  "findall [] = []"
| "findall (c # s) =
     (case match_here (c # s) of
        Some (t, d, rest) \<Rightarrow> (t, d) # findall rest
      | None \<Rightarrow> findall s)"
  by pat_completeness auto
termination
  by (relation "measure length") (auto dest: match_here_shorter)

section \<open>Output files and errors\<close>

text \<open>
  A CSV file is the list of the rows written to it; the file system maps a file name to its
  rows. What a step of a script gives back is the error it raised, if any, and the rows of
  the open file.
\<close>

type_synonym row = "pystr list"
type_synonym fs = "pystr \<rightharpoonup> row list"

datatype error = RequestException | AttributeError | UnicodeEncodeError | OSError

type_synonym written = "error option \<times> row list"

record outcome =
  raised :: "error option"
  files :: fs

text \<open>
  \<open>writer.writerow(r)\<close> adds the row at the end of the file, or raises
  \<open>UnicodeEncodeError\<close> and adds nothing when a field cannot be encoded.
\<close>

definition writerow :: "row \<Rightarrow> row list \<Rightarrow> written" where
  "writerow r w =
     (if list_all encodable r then (None, w @ [r]) else (Some UnicodeEncodeError, w))"

text \<open>One statement after another: what follows a statement that raised is not run.\<close>

definition and_then :: "written \<Rightarrow> (row list \<Rightarrow> written) \<Rightarrow> written" where
  "and_then r f = (case r of (Some e, w) \<Rightarrow> (Some e, w) | (None, w) \<Rightarrow> f w)"

text \<open>A \<open>for\<close> loop whose body may raise: the rows written so far stay written.\<close>

fun for_each :: "('a \<Rightarrow> row list \<Rightarrow> written) \<Rightarrow> 'a list \<Rightarrow> row list \<Rightarrow> written" where
  "for_each body [] w = (None, w)"
| "for_each body (x # xs) w =
     (case body x w of
        (Some e, w') \<Rightarrow> (Some e, w')
      | (None, w') \<Rightarrow> for_each body xs w')"

text \<open>
  \<open>with open(name, "w", newline="") as csvfile\<close>: the file starts with no rows; when the
  block is left, by its end or by an error, the file holds the rows written in it.
\<close>

definition with_open :: "pystr \<Rightarrow> (row list \<Rightarrow> written) \<Rightarrow> fs \<Rightarrow> outcome" where
  "with_open name block fs =
     (case block [] of (e, w) \<Rightarrow> \<lparr>raised = e, files = fs(name \<mapsto> w)\<rparr>)"

section \<open>\<open>pdf_scraper.py\<close>\<close>

definition pdf_name :: pystr where
  "pdf_name = py ''NIST.IR.7298r2.pdf''"

definition terms_csv :: pystr where
  "terms_csv = py ''terms.csv''"

definition header3 :: row where
  "header3 = [py ''Term'', py ''Definition'', py ''Source'']"

text \<open>
  What the PDF reader gives. Opening the file or building the reader raises, before the CSV
  file is opened; or counting the pages raises, after the header is written; or there are
  pages, each of which gives its text or raises when it is fetched and its text extracted.
\<close>

datatype pdf =
    OpenFails error
  | CountFails error
  | Pages "(error + pystr) list"

text \<open>The body of the page loop: one row for each match of the page's text.\<close>

definition page_body :: "error + pystr \<Rightarrow> row list \<Rightarrow> written" where
  "page_body page w =
     (case page of
        Inl e \<Rightarrow> (Some e, w)
      | Inr text \<Rightarrow>
          let matches = findall text
          in for_each (\<lambda>(term, definition). writerow [term, definition, pdf_name]) matches w)"

text \<open>The script.\<close>

definition pdf_scraper :: "pdf \<Rightarrow> fs \<Rightarrow> outcome" where
  "pdf_scraper doc fs =
     (case doc of
        OpenFails e \<Rightarrow> \<lparr>raised = Some e, files = fs\<rparr>
      | CountFails e \<Rightarrow>
          with_open terms_csv (\<lambda>w. and_then (writerow header3 w) (\<lambda>w. (Some e, w))) fs
      | Pages pages \<Rightarrow>
          with_open terms_csv (\<lambda>w. and_then (writerow header3 w) (for_each page_body pages)) fs)"

section \<open>The document tree of BeautifulSoup\<close>

text \<open>
  A node of the parsed tree is a string or a tag. \<open>NavigableString\<close> is a plain text node;
  \<open>Comment\<close> stands for the string nodes of a subclass of \<open>NavigableString\<close> (comments,
  declarations and the like), which pass \<open>isinstance(x, NavigableString)\<close> but which
  \<open>get_text\<close> leaves out. A tag has a name, the tokens of its \<open>class\<close> attribute (the
  one attribute the scripts look at) and its contents.
\<close>

datatype node =
    NavigableString pystr
  | Comment pystr
  | Tag pystr "pystr list" "node list"

fun contents :: "node \<Rightarrow> node list" where
  "contents (Tag n cs ks) = ks"
| "contents (NavigableString s) = []"
| "contents (Comment s) = []"

text \<open>
  \<open>.descendants\<close>: the nodes below, in document order. Each comes with its
  \<open>.next_siblings\<close>, the nodes after it under the same parent.
\<close>

fun descendants :: "node list \<Rightarrow> (node \<times> node list) list" where
  "descendants [] = []"
| "descendants (NavigableString s # ks) = (NavigableString s, ks) # descendants ks"
| "descendants (Comment s # ks) = (Comment s, ks) # descendants ks"
| "descendants (Tag n cs js # ks) = (Tag n cs js, ks) # descendants js @ descendants ks"

fun is_tag :: "pystr \<Rightarrow> node \<Rightarrow> bool" where
  "is_tag name (Tag n cs ks) = (n = name)"
| "is_tag name (NavigableString s) = False"
| "is_tag name (Comment s) = False"

fun has_class :: "pystr \<Rightarrow> node \<Rightarrow> bool" where
  "has_class c (Tag n cs ks) = (c \<in> set cs)"
| "has_class c (NavigableString s) = False"
| "has_class c (Comment s) = False"

text \<open>
  \<open>e.find_all(name)\<close>, \<open>e.find_all(name, {"class": c})\<close> and \<open>e.find(name)\<close> search the
  descendants of \<open>e\<close>; \<open>find\<close> gives the first one found (with its next siblings), or
  \<open>None\<close>. \<open>e.name\<close> for a tag name is \<open>e.find(name)\<close>.
\<close>

definition find_all :: "pystr \<Rightarrow> node \<Rightarrow> node list" where
  "find_all name e = filter (is_tag name) (map fst (descendants (contents e)))"

definition find_all_class :: "pystr \<Rightarrow> pystr \<Rightarrow> node \<Rightarrow> node list" where
  "find_all_class name c e =
     filter (\<lambda>x. is_tag name x \<and> has_class c x) (map fst (descendants (contents e)))"

definition find :: "pystr \<Rightarrow> node \<Rightarrow> (node \<times> node list) option" where
  "find name e = List.find (\<lambda>(x, sibs). is_tag name x) (descendants (contents e))"

text \<open>
  \<open>e.get_text(strip=True)\<close>: the plain text nodes below \<open>e\<close>, each stripped, the empty ones
  dropped, concatenated.
\<close>

fun plain_text :: "node \<Rightarrow> pystr option" where
  "plain_text (NavigableString s) = Some s"
| "plain_text (Comment s) = None"
| "plain_text (Tag n cs ks) = None"

definition get_text_strip :: "node \<Rightarrow> pystr" where
  "get_text_strip e =
     concat (filter (\<lambda>s. s \<noteq> [])
       (map strip (List.map_filter plain_text (map fst (descendants (contents e))))))"

text \<open>
  \<open>isinstance(x, NavigableString)\<close>, and \<open>str(x)\<close> for such a node: its text. The script
  applies \<open>str\<close> to string nodes only; the markup that \<open>str\<close> gives for a tag is not
  modelled.
\<close>

fun isinstance_NavigableString :: "node \<Rightarrow> bool" where
  "isinstance_NavigableString (NavigableString s) = True"
| "isinstance_NavigableString (Comment s) = True"
| "isinstance_NavigableString (Tag n cs ks) = False"

fun str :: "node \<Rightarrow> pystr" where
  "str (NavigableString s) = s"
| "str (Comment s) = s"
| "str (Tag n cs ks) = []"

text \<open>
  The network. \<open>requests.get(url)\<close> raises on a transport failure and otherwise returns the
  response, whatever its status. \<open>content\<close> is the response body as the list of top-level
  nodes that \<open>BeautifulSoup(response.content, "html.parser")\<close> builds from it; the soup
  object is a tag named \<open>[document]\<close> holding them.
\<close>

record response =
  status_code :: int
  content :: "node list"

type_synonym fetch = "pystr \<Rightarrow> error + response"

definition BeautifulSoup :: "node list \<Rightarrow> node" where
  "BeautifulSoup c = Tag (py ''[document]'') [] c"

section \<open>\<open>owasp_scrape.py\<close>\<close>

definition url :: pystr where
  "url = py ''https://cheatsheetseries.owasp.org/glossary.html''"

definition owasp_terms_csv :: pystr where
  "owasp_terms_csv = py ''owasp_terms.csv''"

definition header2 :: row where
  "header2 = [py ''Term'', py ''Definition'']"

text \<open>
  The body of the section loop. \<open>section.find("h1")\<close> and \<open>section.find("p")\<close> may be
  \<open>None\<close>, and \<open>None.get_text\<close> raises \<open>AttributeError\<close>.
\<close>

definition section_body :: "node \<Rightarrow> row list \<Rightarrow> written" where
  "section_body section w =
     (case find (py ''h1'') section of
        None \<Rightarrow> (Some AttributeError, w)
      | Some (h1, _) \<Rightarrow>
          let term = get_text_strip h1
          in (case find (py ''p'') section of
                None \<Rightarrow> (Some AttributeError, w)
              | Some (p, _) \<Rightarrow>
                  let definition = get_text_strip p
                  in writerow [term, definition] w))"

text \<open>The script: fetch, parse, then open the CSV file, write the header and the sections.\<close>

definition owasp_scrape :: "fetch \<Rightarrow> fs \<Rightarrow> outcome" where
  "owasp_scrape get fs =
     (case get url of
        Inl e \<Rightarrow> \<lparr>raised = Some e, files = fs\<rparr>
      | Inr response \<Rightarrow>
          let soup = BeautifulSoup (content response)
          in with_open owasp_terms_csv
               (\<lambda>w. and_then (writerow header2 w)
                  (for_each section_body (find_all_class (py ''div'') (py ''section'') soup)))
               fs)"

section \<open>\<open>scraper.py\<close>\<close>

definition urls :: "pystr list" where
  "urls = [py ''https://www.sans.org/security-resources/glossary-of-terms/'']"

text \<open>
  The body of the paragraph loop. A tag is always true, so \<open>if term_tag\<close> asks whether
  \<open>find\<close> found one.
\<close>

definition paragraph_body :: "pystr \<Rightarrow> node \<Rightarrow> row list \<Rightarrow> written" where
  "paragraph_body u paragraph w =
     (case find (py ''strong'') paragraph of
        None \<Rightarrow> (None, w)
      | Some (term_tag, next_siblings) \<Rightarrow>
          let term = get_text_strip term_tag;
              definition_parts =
                map (\<lambda>sibling. strip (str sibling))
                  (filter isinstance_NavigableString next_siblings);
              definition = join (py '' '') (filter (\<lambda>part. part \<noteq> []) definition_parts)
          in if definition \<noteq> [] then writerow [term, definition, u] w else (None, w))"

definition cell_body :: "pystr \<Rightarrow> node \<Rightarrow> row list \<Rightarrow> written" where
  "cell_body u cell w = for_each (paragraph_body u) (find_all (py ''p'') cell) w"

definition row_body :: "pystr \<Rightarrow> node \<Rightarrow> row list \<Rightarrow> written" where
  "row_body u r w = for_each (cell_body u) (find_all (py ''td'') r) w"

text \<open>
  The body of the table loop. \<open>table.tbody\<close> may be \<open>None\<close>, and \<open>None.find_all\<close> raises
  \<open>AttributeError\<close>.
\<close>

definition table_body :: "pystr \<Rightarrow> node \<Rightarrow> row list \<Rightarrow> written" where
  "table_body u table w =
     (case find (py ''tbody'') table of
        None \<Rightarrow> (Some AttributeError, w)
      | Some (tbody, _) \<Rightarrow>
          let rows = find_all (py ''tr'') tbody
          in for_each (row_body u) rows w)"

text \<open>The body of the URL loop: fetch, parse, then the tables.\<close>

definition url_body :: "fetch \<Rightarrow> pystr \<Rightarrow> row list \<Rightarrow> written" where
  "url_body get u w =
     (case get u of
        Inl e \<Rightarrow> (Some e, w)
      | Inr response \<Rightarrow>
          let soup = BeautifulSoup (content response);
              tables = find_all (py ''table'') soup
          in for_each (table_body u) tables w)"

text \<open>
  The script: the CSV file is opened and the header written before the first fetch. The
  list of URLs is a parameter of \<open>scrape\<close>; \<open>scraper\<close> is the script with its own list.
\<close>

definition scrape :: "pystr list \<Rightarrow> fetch \<Rightarrow> fs \<Rightarrow> outcome" where
  "scrape us get fs =
     with_open terms_csv (\<lambda>w. and_then (writerow header3 w) (for_each (url_body get) us)) fs"

definition scraper :: "fetch \<Rightarrow> fs \<Rightarrow> outcome" where
  "scraper get fs = scrape urls get fs"

section \<open>What the claims speak of\<close>

text \<open>
  A match of the pattern at the start of \<open>s\<close>, said without the matcher: \<open>s\<close> begins with
  a run \<open>t\<close> of uppercase letters and whitespace, a colon, whitespace \<open>ws\<close>, a run \<open>d\<close>
  of characters other than the period, and a period; \<open>r\<close> is what follows. The whitespace
  is greedy: it leaves a whitespace character to \<open>d\<close> only when \<open>d\<close> would be empty
  otherwise.
\<close>

definition pattern_match :: "pystr \<Rightarrow> pystr \<Rightarrow> pystr \<Rightarrow> pystr \<Rightarrow> bool" where
  "pattern_match s t d r \<longleftrightarrow>
     (\<exists>ws. s = t @ colon # ws @ d @ period # r \<and>
        t \<noteq> [] \<and> list_all in_term_class t \<and>
        ws \<noteq> [] \<and> list_all is_space ws \<and>
        d \<noteq> [] \<and> list_all in_def_class d \<and>
        (is_space (hd d) \<longrightarrow> length d = 1))"

text \<open>
  The matches of a text from left to right, none overlapping another: at each position the
  match starting there, if there is one, and then the matches of what follows it; otherwise
  the matches from the next position on.
\<close>

inductive matches_in :: "pystr \<Rightarrow> (pystr \<times> pystr) list \<Rightarrow> bool" where
  finish: "matches_in [] []"
| skip: "\<forall>t d r. \<not> pattern_match (c # s) t d r \<Longrightarrow> matches_in s es \<Longrightarrow> matches_in (c # s) es"
| emit: "pattern_match (c # s) t d r \<Longrightarrow> matches_in r es \<Longrightarrow> matches_in (c # s) ((t, d) # es)"

text \<open>The rows that the matches of a page's text ask for.\<close>

definition page_rows :: "pystr \<Rightarrow> row list" where
  "page_rows text = map (\<lambda>(t, d). [t, d, pdf_name]) (findall text)"

text \<open>
  The row of a section: the stripped text of its first \<open>h1\<close> and of its first \<open>p\<close>, when
  it has both.
\<close>

definition section_entry :: "node \<Rightarrow> row option" where
  "section_entry section =
     (case find (py ''h1'') section of
        None \<Rightarrow> None
      | Some (h1, _) \<Rightarrow>
          (case find (py ''p'') section of
             None \<Rightarrow> None
           | Some (p, _) \<Rightarrow> Some [get_text_strip h1, get_text_strip p]))"

text \<open>A string is whitespace-trimmed when stripping it changes nothing.\<close>

definition trimmed :: "pystr \<Rightarrow> bool" where
  "trimmed s \<longleftrightarrow> strip s = s"






text \<open>
  The rows that a paragraph, a cell, a table row and a table body hand to the writer, in
  order, whether or not the writer can take them.
\<close>

definition paragraph_rows :: "pystr \<Rightarrow> node \<Rightarrow> row list" where
  "paragraph_rows u paragraph =
     (case find (py ''strong'') paragraph of
        None \<Rightarrow> []
      | Some (term_tag, next_siblings) \<Rightarrow>
          let definition = join (py '' '')
                (filter (\<lambda>part. part \<noteq> [])
                   (map (\<lambda>sibling. strip (str sibling))
                      (filter isinstance_NavigableString next_siblings)))
          in if definition \<noteq> [] then [[get_text_strip term_tag, definition, u]] else [])"

definition cell_rows :: "pystr \<Rightarrow> node \<Rightarrow> row list" where
  "cell_rows u cell = concat (map (paragraph_rows u) (find_all (py ''p'') cell))"

definition row_rows :: "pystr \<Rightarrow> node \<Rightarrow> row list" where
  "row_rows u r = concat (map (cell_rows u) (find_all (py ''td'') r))"

definition tbody_rows :: "pystr \<Rightarrow> node \<Rightarrow> row list" where
  "tbody_rows u tbody = concat (map (row_rows u) (find_all (py ''tr'') tbody))"

text \<open>A node all of whose text, at any depth, the output file can take.\<close>

fun encodable_node :: "node \<Rightarrow> bool" where
  "encodable_node (NavigableString s) = encodable s"
| "encodable_node (Comment s) = encodable s"
| "encodable_node (Tag n cs ks) = (\<forall>k \<in> set ks. encodable_node k)"

text \<open>The same network, with every response carrying the status \<open>code\<close>.\<close>

definition with_status :: "int \<Rightarrow> fetch \<Rightarrow> fetch" where
  "with_status code get =
     (\<lambda>u. case get u of Inl e \<Rightarrow> Inl e | Inr response \<Rightarrow> Inr (response\<lparr>status_code := code\<rparr>))"

section \<open>Concrete inputs\<close>

text \<open>A network that answers every URL with the given page, with status 200 or 404.\<close>

definition page200 :: "node list \<Rightarrow> fetch" where
  "page200 doc = (\<lambda>u. Inr \<lparr>status_code = 200, content = doc\<rparr>)"

definition page404 :: "node list \<Rightarrow> fetch" where
  "page404 doc = (\<lambda>u. Inr \<lparr>status_code = 404, content = doc\<rparr>)"

text \<open>
  Two sections with a heading and a paragraph each; and three sections of which the second
  has an \<open>h2\<close> where the script looks for an \<open>h1\<close>.
\<close>

definition two_sections :: "node list" where
  "two_sections =
     [Tag (py ''div'') [py ''section'']
        [Tag (py ''h1'') [] [NavigableString (py '' XSS '')],
         Tag (py ''p'') [] [NavigableString (py ''Cross-site scripting.'')]],
      Tag (py ''div'') [py ''section'']
        [Tag (py ''h1'') [] [NavigableString (py ''CSRF'')],
         Tag (py ''p'') [] [NavigableString (py ''Request forgery.'')]]]"

definition headless_section :: "node list" where
  "headless_section =
     [Tag (py ''div'') [py ''section'']
        [Tag (py ''h1'') [] [NavigableString (py '' XSS '')],
         Tag (py ''p'') [] [NavigableString (py ''Cross-site scripting.'')]],
      Tag (py ''div'') [py ''section'']
        [Tag (py ''h2'') [] [NavigableString (py ''SSRF'')],
         Tag (py ''p'') [] [NavigableString (py ''Server-side forgery.'')]],
      Tag (py ''div'') [py ''section'']
        [Tag (py ''h1'') [] [NavigableString (py ''CSRF'')],
         Tag (py ''p'') [] [NavigableString (py ''Request forgery.'')]]]"

text \<open>A network on which every fetch fails.\<close>

definition network_down :: fetch where
  "network_down = (\<lambda>u. Inl RequestException)"

text \<open>
  A glossary paragraph; a table with a \<open>tbody\<close>; a table whose rows are its own children
  and whose one cell holds that table; a table with no \<open>tbody\<close> anywhere; and a paragraph
  with a whitespace-only string between two \<open>br\<close> tags.
\<close>

definition firewall_paragraph :: node where
  "firewall_paragraph =
     Tag (py ''p'') []
       [Tag (py ''strong'') [] [NavigableString (py ''Firewall'')],
        NavigableString (py '' a system that monitors network traffic.'')]"

definition inner_table :: node where
  "inner_table =
     Tag (py ''table'') []
       [Tag (py ''tbody'') [] [Tag (py ''tr'') [] [Tag (py ''td'') [] [firewall_paragraph]]]]"

definition outer_table :: node where
  "outer_table =
     Tag (py ''table'') [] [Tag (py ''tr'') [] [Tag (py ''td'') [] [inner_table]]]"

definition bare_table :: node where
  "bare_table =
     Tag (py ''table'') [] [Tag (py ''tr'') [] [Tag (py ''td'') [] [firewall_paragraph]]]"


text \<open>
  A section whose heading and paragraph are empty, and a table whose paragraph has an empty
  \<open>strong\<close> tag.
\<close>

definition empty_section :: node where
  "empty_section =
     Tag (py ''div'') [py ''section''] [Tag (py ''h1'') [] [], Tag (py ''p'') [] []]"

definition unnamed_table :: node where
  "unnamed_table =
     Tag (py ''table'') []
       [Tag (py ''tbody'') []
          [Tag (py ''tr'') []
             [Tag (py ''td'') []
                [Tag (py ''p'') [] [Tag (py ''strong'') [] [], NavigableString (py '' d'')]]]]]"

text \<open>
  Two sections inside a wrapper, next to a \<open>span\<close> of class \<open>section\<close> and a \<open>div\<close> of
  another class, the second section with a second class and a paragraph in two pieces; a
  section whose heading is an \<open>h2\<close>; a section whose \<open>h1\<close> holds a lone surrogate; a
  paragraph whose \<open>strong\<close> tag holds two pieces of text; and a page text with three
  matches, the second of which holds a lone surrogate.
\<close>

definition wrapped_sections :: "node list" where
  "wrapped_sections =
     [NavigableString (py '' ''),
      Tag (py ''div'') [py ''main'']
        [Tag (py ''div'') [py ''section'']
           [Tag (py ''h1'') [] [NavigableString (py '' XSS '')],
            Tag (py ''p'') [] [NavigableString (py ''Cross-site scripting.'')]],
         Tag (py ''span'') [py ''section''] [NavigableString (py ''aside'')],
         Tag (py ''div'') [py ''note'']
           [Tag (py ''h1'') [] [NavigableString (py ''Not a term'')],
            Tag (py ''p'') [] [NavigableString (py ''Not a definition.'')]],
         Tag (py ''div'') [py ''toc'', py ''section'']
           [Tag (py ''h1'') [] [NavigableString (py ''CSRF'')],
            Tag (py ''p'') []
              [NavigableString (py ''Request ''),
               Tag (py ''em'') [] [NavigableString (py '' forgery.'')]]]]]"

definition subheading_section :: node where
  "subheading_section =
     Tag (py ''div'') [py ''section'']
       [Tag (py ''h2'') [] [NavigableString (py ''Injection'')],
        Tag (py ''p'') [] [NavigableString (py ''Untrusted input run as code.'')]]"

definition surrogate_section :: node where
  "surrogate_section =
     Tag (py ''div'') [py ''section'']
       [Tag (py ''h1'') [] [NavigableString (py ''XSS'' @ [55296])],
        Tag (py ''p'') [] [NavigableString (py ''Cross-site scripting.'')]]"


definition surrogate_text :: pystr where
  "surrogate_text = py ''A: b. C: '' @ [55296] @ py ''. D: e.''"

section \<open>Invariants of the rows written\<close>

text \<open>
  What holds of the rows of the output file while each script runs: the header first, then
  well-formed entries.
\<close>

definition pattern_rows_ok :: "row list \<Rightarrow> bool" where
  "pattern_rows_ok w \<longleftrightarrow>
     (\<exists>rows. w = header3 # rows \<and>
        (\<forall>r \<in> set rows. \<exists>t d. r = [t, d, pdf_name] \<and>
           t \<noteq> [] \<and> list_all in_term_class t \<and> d \<noteq> [] \<and> list_all in_def_class d))"

definition table_rows_ok :: "row list \<Rightarrow> bool" where
  "table_rows_ok w \<longleftrightarrow>
     (\<exists>rows. w = header3 # rows \<and>
        (\<forall>r \<in> set rows. \<exists>t d s. r = [t, d, s] \<and> trimmed t \<and> d \<noteq> [] \<and> trimmed d))"

definition section_rows_ok :: "row list \<Rightarrow> bool" where
  "section_rows_ok w \<longleftrightarrow>
     (\<exists>rows. w = header2 # rows \<and> (\<forall>r \<in> set rows. \<exists>t d. r = [t, d] \<and> trimmed t \<and> trimmed d))"

section \<open>The pattern: what a match is\<close>

lemma takeWhile_run:
  "list_all P xs \<Longrightarrow> ys = [] \<or> \<not> P (hd ys) \<Longrightarrow> takeWhile P (xs @ ys) = xs"
  by (cases ys) (auto simp: list_all_iff takeWhile_tail)

lemma plus_splits_run:
  assumes "xs \<noteq> []" "list_all P xs" "ys = [] \<or> \<not> P (hd ys)"
  shows "plus_splits P (xs @ ys) = (xs, ys) # map (\<lambda>n. (take n xs, drop n xs @ ys)) (rev [1..<length xs])"
proof -
  have tw: "takeWhile P (xs @ ys) = xs" using assms by (simp add: takeWhile_run)
  obtain k where k: "length xs = Suc k" using assms(1) by (cases xs) auto
  show ?thesis unfolding plus_splits_def tw by (auto simp: k)
qed

lemma plus_splits_Nil: "s = [] \<or> \<not> P (hd s) \<Longrightarrow> plus_splits P s = []"
  by (cases s) (auto simp: plus_splits_def)

lemma colon_not_term: "\<not> in_term_class colon"
  by (simp add: in_term_class_def colon_def is_upper_def is_space_def)

lemma period_not_space: "\<not> is_space period"
  by (simp add: period_def is_space_def)

lemma period_not_def: "\<not> in_def_class period"
  by (simp add: in_def_class_def)

lemma space_in_def: "is_space c \<Longrightarrow> in_def_class c"
  using period_not_space by (auto simp: in_def_class_def)

lemma group2_here:
  assumes "d \<noteq> []" "list_all in_def_class d"
  shows "first_some (\<lambda>(g2, r4). case literal period r4 of None \<Rightarrow> None | Some r5 \<Rightarrow> Some (g1, g2, r5))
           (plus_splits in_def_class (d @ period # r)) = Some (g1, d, r)"
  using assms by (subst plus_splits_run) (auto simp: period_not_def literal_def)

lemma spaces_here:
  assumes "ws \<noteq> []" "list_all is_space ws" "d \<noteq> []" "list_all in_def_class d"
    "is_space (hd d) \<longrightarrow> length d = 1"
  shows "first_some (\<lambda>(ws, r3).
             first_some (\<lambda>(g2, r4). case literal period r4 of None \<Rightarrow> None | Some r5 \<Rightarrow> Some (g1, g2, r5))
               (plus_splits in_def_class r3))
           (plus_splits is_space (ws @ d @ period # r)) = Some (g1, d, r)"
proof (cases "is_space (hd d)")
  case False
  then have "plus_splits is_space (ws @ (d @ period # r)) =
     (ws, d @ period # r) # map (\<lambda>n. (take n ws, drop n ws @ (d @ period # r))) (rev [1..<length ws])"
    using assms by (intro plus_splits_run) auto
  then show ?thesis using assms by (simp add: group2_here)
next
  case True
  then obtain c where d: "d = [c]" and c: "is_space c"
    using assms by (cases d) auto
  have 1: "plus_splits is_space ((ws @ [c]) @ (period # r)) =
     (ws @ [c], period # r) # map (\<lambda>n. (take n (ws @ [c]), drop n (ws @ [c]) @ (period # r))) (rev [1..<length (ws @ [c])])"
    using assms c by (intro plus_splits_run) (auto simp: period_not_space)
  obtain k where k: "length ws = Suc k" using assms(1) by (cases ws) auto
  have 2: "plus_splits in_def_class (period # r) = []"
    by (simp add: plus_splits_Nil period_not_def)
  have 3: "first_some (\<lambda>(g2, r4). case literal period r4 of None \<Rightarrow> None | Some r5 \<Rightarrow> Some (g1, g2, r5))
           (plus_splits in_def_class ([c] @ period # r)) = Some (g1, [c], r)"
    by (rule group2_here) (use c in \<open>auto simp: space_in_def\<close>)
  show ?thesis using 1 2 3 by (simp add: d k)
qed

lemma match_hereI:
  assumes "pattern_match s t d r"
  shows "match_here s = Some (t, d, r)"
proof -
  from assms obtain ws where s: "s = t @ colon # ws @ d @ period # r"
    and t: "t \<noteq> []" "list_all in_term_class t"
    and ws: "ws \<noteq> []" "list_all is_space ws"
    and d: "d \<noteq> []" "list_all in_def_class d" "is_space (hd d) \<longrightarrow> length d = 1"
    by (auto simp: pattern_match_def)
  have "plus_splits in_term_class (t @ (colon # ws @ d @ period # r)) =
      (t, colon # ws @ d @ period # r) #
      map (\<lambda>n. (take n t, drop n t @ (colon # ws @ d @ period # r))) (rev [1..<length t])"
    using t by (intro plus_splits_run) (auto simp: colon_not_term)
  then show ?thesis
    unfolding match_here_def s using spaces_here[OF ws d, of t r]
    by (simp add: literal_def)
qed


lemma plus_splits_mem:
  assumes "(a, b) \<in> set (plus_splits P s)"
  shows "s = a @ b \<and> a \<noteq> [] \<and> list_all P a"
proof -
  from assms obtain n where n: "1 \<le> n" "n \<le> length (takeWhile P s)"
    and a: "a = take n s" and b: "b = drop n s"
    by (auto simp: plus_splits_def)
  have "take n s = take n (takeWhile P s)"
    using n(2) by (metis takeWhile_dropWhile_id take_append diff_is_0_eq take_0 append_Nil2)
  then have "set a \<subseteq> set (takeWhile P s)"
    using a by (metis set_take_subset)
  then have "list_all P a"
    by (auto simp: list_all_iff dest: set_takeWhileD)
  moreover have "a \<noteq> []"
    using n a by (cases s) auto
  ultimately show ?thesis using a b by simp
qed

lemma literal_SomeD: "literal c s = Some r \<Longrightarrow> s = c # r"
  by (auto simp: literal_def split: list.splits if_splits)

lemma match_here_shape:
  assumes "match_here s = Some (t, d, r)"
  shows "\<exists>ws. s = t @ colon # ws @ d @ period # r \<and> t \<noteq> [] \<and> list_all in_term_class t \<and>
     ws \<noteq> [] \<and> list_all is_space ws \<and> d \<noteq> [] \<and> list_all in_def_class d"
proof -
  from assms obtain g1 r1 r2 where a: "(g1, r1) \<in> set (plus_splits in_term_class s)"
    and b: "literal colon r1 = Some r2"
    and c: "first_some (\<lambda>(ws, r3).
             first_some (\<lambda>(g2, r4).
               case literal period r4 of None \<Rightarrow> None
               | Some r5 \<Rightarrow> Some (g1, g2, r5))
             (plus_splits in_def_class r3))
           (plus_splits is_space r2) = Some (t, d, r)"
    unfolding match_here_def by (fastforce dest!: first_some_SomeD split: option.splits)
  from c obtain ws r3 g2 r4 where d: "(ws, r3) \<in> set (plus_splits is_space r2)"
    and e: "(g2, r4) \<in> set (plus_splits in_def_class r3)"
    and f: "literal period r4 = Some r" and g: "g1 = t" "g2 = d"
    by (fastforce dest!: first_some_SomeD split: option.splits)
  from a b d e f g show ?thesis
    by (auto dest!: plus_splits_mem literal_SomeD)
qed

lemma match_hereD:
  assumes "match_here s = Some (t, d, r)"
  shows "pattern_match s t d r"
proof -
  from match_here_shape[OF assms] obtain ws where s: "s = t @ colon # ws @ d @ period # r"
    and t: "t \<noteq> []" "list_all in_term_class t"
    and ws: "ws \<noteq> []" "list_all is_space ws"
    and d: "d \<noteq> []" "list_all in_def_class d"
    by blast
  have "length d = 1" if sp: "is_space (hd d)"
  proof (rule ccontr)
    assume len: "length d \<noteq> 1"
    have "\<exists>ws' d'. ws' @ d' = ws @ d \<and> ws' \<noteq> [] \<and> list_all is_space ws' \<and> d' \<noteq> [] \<and>
        list_all in_def_class d' \<and> (is_space (hd d') \<longrightarrow> length d' = 1) \<and> d' \<noteq> d"
    proof (cases "takeWhile is_space d = d")
      case True
      then have all: "list_all is_space d"
        by (metis list_all_iff set_takeWhileD)
      have bl: "butlast d @ [last d] = d" using d(1) by simp
      have "list_all is_space (butlast d)"
        using all by (auto simp: list_all_iff dest: in_set_butlastD)
      moreover have "in_def_class (last d)"
        using d by (auto simp: list_all_iff)
      moreover have "[last d] \<noteq> d"
        using len by (cases d) auto
      ultimately show ?thesis
        using ws bl by (intro exI[of _ "ws @ butlast d"] exI[of _ "[last d]"]) auto
    next
      case False
      then have dw: "dropWhile is_space d \<noteq> []"
        by (metis takeWhile_dropWhile_id append_Nil2)
      have tw: "takeWhile is_space d \<noteq> []"
        using sp d(1) by (cases d) auto
      have "list_all is_space (takeWhile is_space d)"
        by (auto simp: list_all_iff dest: set_takeWhileD)
      moreover have "list_all in_def_class (dropWhile is_space d)"
        using d(2) by (auto simp: list_all_iff dest: set_dropWhileD)
      moreover have "\<not> is_space (hd (dropWhile is_space d))"
        using dw by (rule hd_dropWhile)
      moreover have "dropWhile is_space d \<noteq> d"
        using tw by (metis takeWhile_dropWhile_id self_append_conv2)
      ultimately show ?thesis
        using ws dw
        by (intro exI[of _ "ws @ takeWhile is_space d"] exI[of _ "dropWhile is_space d"]) auto
    qed
    then obtain ws' d' where *: "ws' @ d' = ws @ d" "ws' \<noteq> []" "list_all is_space ws'" "d' \<noteq> []"
        "list_all in_def_class d'" "is_space (hd d') \<longrightarrow> length d' = 1" "d' \<noteq> d"
      by blast
    have "s = t @ colon # ws' @ d' @ period # r"
      using s *(1) by (metis append_assoc)
    with t * have "pattern_match s t d' r"
      unfolding pattern_match_def by blast
    then have "match_here s = Some (t, d', r)" by (rule match_hereI)
    with assms *(7) show False by simp
  qed
  with s t ws d show ?thesis unfolding pattern_match_def by blast
qed

lemma match_here_iff: "match_here s = Some (t, d, r) \<longleftrightarrow> pattern_match s t d r"
  using match_hereI match_hereD by blast

lemma match_here_None_iff: "match_here s = None \<longleftrightarrow> (\<forall>t d r. \<not> pattern_match s t d r)"
proof
  assume "match_here s = None"
  then show "\<forall>t d r. \<not> pattern_match s t d r"
    by (auto dest: match_hereI)
next
  assume *: "\<forall>t d r. \<not> pattern_match s t d r"
  show "match_here s = None"
  proof (cases "match_here s")
    case (Some a)
    then show ?thesis using * by (cases a) (auto dest: match_hereD)
  qed simp
qed

lemma matches_in_findall: "matches_in s (findall s)"
proof (induction s rule: findall.induct)
  case 1
  show ?case by (simp add: matches_in.finish)
next
  case (2 c s)
  show ?case
  proof (cases "match_here (c # s)")
    case None
    then have "\<forall>t d r. \<not> pattern_match (c # s) t d r"
      by (simp add: match_here_None_iff)
    moreover have "matches_in s (findall s)"
      using None 2 by simp
    ultimately have "matches_in (c # s) (findall s)"
      by (rule matches_in.skip)
    with None show ?thesis by simp
  next
    case (Some a)
    obtain t d r where a: "a = (t, d, r)" by (cases a) auto
    have "pattern_match (c # s) t d r"
      using Some a by (auto dest: match_hereD)
    moreover have "matches_in r (findall r)"
      using Some a 2 by simp
    ultimately have "matches_in (c # s) ((t, d) # findall r)"
      by (rule matches_in.emit)
    with Some a show ?thesis by simp
  qed
qed

lemma matches_in_unique: "matches_in s es \<Longrightarrow> findall s = es"
proof (induction rule: matches_in.induct)
  case finish
  show ?case by simp
next
  case (skip c s es)
  then show ?case by (simp add: match_here_None_iff[symmetric])
next
  case (emit c s t d r es)
  then show ?case by (simp add: match_here_iff[symmetric])
qed

lemma pattern_match_maximal: "pattern_match s t d r \<Longrightarrow> t = takeWhile in_term_class s"
  by (auto simp: pattern_match_def takeWhile_run colon_not_term)

lemma findall_match: "pattern_match s t d r \<Longrightarrow> findall s = (t, d) # findall r"
proof (cases s)
  case Nil
  assume "pattern_match s t d r"
  with Nil show ?thesis by (simp add: pattern_match_def)
next
  case (Cons c s')
  assume "pattern_match s t d r"
  then have "match_here s = Some (t, d, r)" by (rule match_hereI)
  with Cons show ?thesis by simp
qed

lemma findall_skip: "\<not> in_term_class c \<Longrightarrow> findall (c # s) = findall s"
proof -
  assume "\<not> in_term_class c"
  then have "match_here (c # s) = None"
    by (simp add: match_here_def plus_splits_Nil)
  then show ?thesis by simp
qed


lemma pattern_matchI:
  "s = t @ colon # ws @ d @ period # r \<Longrightarrow> t \<noteq> [] \<Longrightarrow> list_all in_term_class t \<Longrightarrow>
   ws \<noteq> [] \<Longrightarrow> list_all is_space ws \<Longrightarrow> d \<noteq> [] \<Longrightarrow> list_all in_def_class d \<Longrightarrow>
   (is_space (hd d) \<longrightarrow> length d = 1) \<Longrightarrow> pattern_match s t d r"
  unfolding pattern_match_def by blast

lemmas char_classes = in_term_class_def in_def_class_def is_upper_def is_space_def colon_def period_def

lemma example_first:
  "pattern_match
     (py ''CONFIDENTIALITY: the property of being accessible only to authorized parties. INTEGRITY: the assurance of data accuracy.'')
     (py ''CONFIDENTIALITY'')
     (py ''the property of being accessible only to authorized parties'')
     (py '' INTEGRITY: the assurance of data accuracy.'')"
  by (rule pattern_matchI[where ws = "py '' ''"]) (simp_all add: py_def char_classes)

lemma example_second:
  "pattern_match
     (py '' INTEGRITY: the assurance of data accuracy.'')
     (py '' INTEGRITY'')
     (py ''the assurance of data accuracy'')
     []"
  by (rule pattern_matchI[where ws = "py '' ''"]) (simp_all add: py_def char_classes)

lemma example_findall:
  "findall (py ''CONFIDENTIALITY: the property of being accessible only to authorized parties. INTEGRITY: the assurance of data accuracy.'')
   = [(py ''CONFIDENTIALITY'', py ''the property of being accessible only to authorized parties''),
      (py '' INTEGRITY'', py ''the assurance of data accuracy'')]"
  by (simp add: findall_match[OF example_first] findall_match[OF example_second])

lemma small_match: "pattern_match (py ''A: b.'') (py ''A'') (py ''b'') []"
  by (rule pattern_matchI[where ws = "py '' ''"]) (simp_all add: py_def char_classes)

lemma findall_entries:
  "(t, d) \<in> set (findall s) \<Longrightarrow>
   t \<noteq> [] \<and> list_all in_term_class t \<and> d \<noteq> [] \<and> list_all in_def_class d"
proof (induction s rule: findall.induct)
  case 1
  then show ?case by simp
next
  case (2 c s)
  show ?case
  proof (cases "match_here (c # s)")
    case None
    with "2.prems" have "(t, d) \<in> set (findall s)" by simp
    with None show ?thesis by (rule "2.IH"(1))
  next
    case (Some a)
    obtain t' d' r where a: "a = (t', d', r)" by (cases a) auto
    from Some a have here: "t' \<noteq> [] \<and> list_all in_term_class t' \<and> d' \<noteq> [] \<and> list_all in_def_class d'"
      using match_here_shape by blast
    from "2.prems" Some a have "(t, d) = (t', d') \<or> (t, d) \<in> set (findall r)" by simp
    then show ?thesis
    proof
      assume "(t, d) = (t', d')"
      with here show ?thesis by simp
    next
      assume "(t, d) \<in> set (findall r)"
      with Some a show ?thesis using "2.IH"(2) by simp
    qed
  qed
qed

text \<open>
  Claim C1, as amended. The rows that \<open>pdf_scraper.py\<close> writes after the header are, page
  after page, one row for each match of the pattern in the page's text, with the file name
  of the PDF as source; the matches of a text are its non-overlapping matches from left to
  right, each made of a run of uppercase letters and whitespace, a colon, whitespace, a run
  of characters other than the period, and a period. On the text of the specification's
  example there are two entries, and the term of the second is \<open>INTEGRITY\<close> preceded by a
  space: the space after the first match's period belongs to the term's character class.
\<close>


section \<open>Loops and the writer\<close>

lemma writerow_header3: "writerow header3 w = (None, w @ [header3])"
  by (simp add: writerow_def header3_def encodable_def py_def)

lemma writerow_header2: "writerow header2 w = (None, w @ [header2])"
  by (simp add: writerow_def header2_def encodable_def py_def)

lemma for_each_append:
  "for_each body (xs @ ys) w =
     (case for_each body xs w of (Some e, w') \<Rightarrow> (Some e, w') | (None, w') \<Rightarrow> for_each body ys w')"
  by (induction xs arbitrary: w) (auto split: prod.splits option.splits)

lemma for_each_map: "for_each (\<lambda>x. g (f x)) xs w = for_each g (map f xs) w"
  by (induction xs arbitrary: w) (auto split: prod.splits option.splits)

lemma for_each_nested:
  "for_each (\<lambda>x. for_each g (h x)) xs w = for_each g (concat (map h xs)) w"
  by (induction xs arbitrary: w) (auto simp: for_each_append split: prod.splits option.splits)

lemma for_each_writerow:
  "for_each writerow rs w =
     (if list_all (list_all encodable) rs then None else Some UnicodeEncodeError,
      w @ takeWhile (list_all encodable) rs)"
  by (induction rs arbitrary: w) (auto simp: writerow_def)

lemma for_each_invariant:
  assumes "\<And>x w. I w \<Longrightarrow> I (snd (body x w))" and "I w"
  shows "I (snd (for_each body xs w))"
  using assms(2)
proof (induction xs arbitrary: w)
  case Nil
  then show ?case by simp
next
  case (Cons x xs)
  obtain e w' where b: "body x w = (e, w')" by (cases "body x w") auto
  with assms(1)[OF Cons.prems, of x] have w': "I w'" by simp
  show ?case
  proof (cases e)
    case None
    with b Cons.IH[OF w'] show ?thesis by simp
  next
    case (Some a)
    with b w' show ?thesis by simp
  qed
qed

section \<open>\<open>pdf_scraper.py\<close>: the rows written\<close>

lemma page_body_rows: "page_body (Inr text) w = for_each writerow (page_rows text) w"
proof -
  have "(\<lambda>(term, definition). writerow [term, definition, pdf_name]) =
      (\<lambda>m. writerow ((\<lambda>(t, d). [t, d, pdf_name]) m))"
    by (auto simp: fun_eq_iff)
  then show ?thesis
    by (simp add: page_body_def page_rows_def for_each_map)
qed

lemma pages_rows:
  "for_each page_body (map Inr texts) w = for_each writerow (concat (map page_rows texts)) w"
proof -
  have "for_each page_body (map Inr texts) w = for_each (\<lambda>text. page_body (Inr text)) texts w"
    by (simp add: for_each_map[symmetric])
  also have "\<dots> = for_each (\<lambda>text. for_each writerow (page_rows text)) texts w"
    by (simp add: page_body_rows[abs_def])
  also have "\<dots> = for_each writerow (concat (map page_rows texts)) w"
    by (rule for_each_nested)
  finally show ?thesis .
qed

lemma pdf_scraper_texts:
  "pdf_scraper (Pages (map Inr texts)) fs =
     \<lparr>raised = (if list_all (list_all encodable) (concat (map page_rows texts)) then None
                 else Some UnicodeEncodeError),
      files = fs(terms_csv \<mapsto>
        header3 # takeWhile (list_all encodable) (concat (map page_rows texts)))\<rparr>"
  by (simp add: pdf_scraper_def with_open_def and_then_def writerow_header3 pages_rows
      for_each_writerow)

lemma pdf_scraper_count_fails:
  "pdf_scraper (CountFails e) fs = \<lparr>raised = Some e, files = fs(terms_csv \<mapsto> [header3])\<rparr>"
  by (simp add: pdf_scraper_def with_open_def and_then_def writerow_header3)

lemma pdf_scraper_page_fails:
  assumes "list_all (list_all encodable) (concat (map page_rows texts))"
  shows "pdf_scraper (Pages (map Inr texts @ Inl e # rest)) fs =
     \<lparr>raised = Some e, files = fs(terms_csv \<mapsto> header3 # concat (map page_rows texts))\<rparr>"
proof -
  from assms have "takeWhile (list_all encodable) (concat (map page_rows texts)) =
      concat (map page_rows texts)"
    by (simp add: list_all_iff)
  with assms show ?thesis
    by (simp add: pdf_scraper_def with_open_def and_then_def writerow_header3 for_each_append
        pages_rows for_each_writerow page_body_def del: takeWhile_eq_all_conv)
qed

lemmas row_eval = encodable_def py_def pdf_name_def

lemma small_rows: "page_rows (py ''A: b.'') = [[py ''A'', py ''b'', pdf_name]]"
  by (simp add: page_rows_def findall_match[OF small_match])

lemma small_scrape:
  "pdf_scraper (Pages [Inr (py ''A: b.'')]) Map.empty =
     \<lparr>raised = None, files = [terms_csv \<mapsto> [header3, [py ''A'', py ''b'', pdf_name]]]\<rparr>"
  using pdf_scraper_texts[of "[py ''A: b.'']" Map.empty]
  by (simp add: small_rows) (simp add: row_eval)

lemma surrogate_first:
  "pattern_match surrogate_text (py ''A'') (py ''b'') (py '' C: '' @ [55296] @ py ''. D: e.'')"
  by (rule pattern_matchI[where ws = "py '' ''"]) (simp_all add: surrogate_text_def py_def char_classes)

lemma surrogate_second:
  "pattern_match (py '' C: '' @ [55296] @ py ''. D: e.'') (py '' C'') [55296] (py '' D: e.'')"
  by (rule pattern_matchI[where ws = "py '' ''"]) (simp_all add: py_def char_classes)

lemma surrogate_third: "pattern_match (py '' D: e.'') (py '' D'') (py ''e'') []"
  by (rule pattern_matchI[where ws = "py '' ''"]) (simp_all add: py_def char_classes)

lemma surrogate_findall:
  "findall surrogate_text = [(py ''A'', py ''b''), (py '' C'', [55296]), (py '' D'', py ''e'')]"
  by (simp only: findall_match[OF surrogate_first] findall_match[OF surrogate_second]
      findall_match[OF surrogate_third] findall.simps(1))

text \<open>
  Claim C1, as amended. When every page gives its text, \<open>pdf_scraper.py\<close> hands the writer,
  page after page, one row for each match of the pattern in the page's text, with the file
  name of the PDF as source; the rows are written in that order up to the first one that
  cannot be encoded, where the run stops with \<open>UnicodeEncodeError\<close>, and all of them are
  written when all can be encoded. The matches of a text are its non-overlapping matches
  from left to right, each made of a maximal run of uppercase letters and whitespace, a
  colon, whitespace, a run of characters other than the period, and a period. On the text
  of the specification's example there are two entries, and the term of the second is
  \<open>INTEGRITY\<close> preceded by a space: the space after the first match's period belongs to the
  term's character class.
\<close>

theorem pattern_strategy_matches:
  "pdf_scraper (Pages (map Inr texts)) fs =
     \<lparr>raised = (if list_all (list_all encodable) (concat (map page_rows texts)) then None
                 else Some UnicodeEncodeError),
      files = fs(terms_csv \<mapsto>
        header3 # takeWhile (list_all encodable) (concat (map page_rows texts)))\<rparr>
   \<and> page_rows page = map (\<lambda>(t, d). [t, d, pdf_name]) (findall page)
   \<and> (matches_in page es \<longleftrightarrow> findall page = es)
   \<and> (pattern_match s t d r \<longrightarrow> t = takeWhile in_term_class s)
   \<and> findall (py ''CONFIDENTIALITY: the property of being accessible only to authorized parties. INTEGRITY: the assurance of data accuracy.'')
     = [(py ''CONFIDENTIALITY'', py ''the property of being accessible only to authorized parties''),
        (py '' INTEGRITY'', py ''the assurance of data accuracy'')]"
  using matches_in_findall matches_in_unique pattern_match_maximal
  by (auto simp: pdf_scraper_texts example_findall page_rows_def)

theorem pattern_strategy_matches_witness:
  "matches_in (py ''A: b.'') [(py ''A'', py ''b'')]
   \<and> py ''A'' = takeWhile in_term_class (py ''A: b.'')
   \<and> pdf_scraper (Pages [Inr (py ''A: b.'')]) Map.empty =
       \<lparr>raised = None, files = [terms_csv \<mapsto> [header3, [py ''A'', py ''b'', pdf_name]]]\<rparr>"
proof -
  note T = pattern_strategy_matches[where texts = "[py ''A: b.'']" and fs = Map.empty
      and page = "py ''A: b.''" and es = "[(py ''A'', py ''b'')]"
      and s = "py ''A: b.''" and t = "py ''A''" and d = "py ''b''" and r = "[]"]
  from T have "matches_in (py ''A: b.'') [(py ''A'', py ''b'')] \<longleftrightarrow>
      findall (py ''A: b.'') = [(py ''A'', py ''b'')]"
    by blast
  then have a: "matches_in (py ''A: b.'') [(py ''A'', py ''b'')]"
    by (simp add: findall_match[OF small_match])
  from T small_match have b: "py ''A'' = takeWhile in_term_class (py ''A: b.'')"
    by blast
  from a b small_scrape show ?thesis by blast
qed

text \<open>
  Claim C1 as stated fails twice. On its own example the rows written are not the two rows
  with the terms \<open>CONFIDENTIALITY\<close> and \<open>INTEGRITY\<close>. And on a text with three matches
  of which the second holds a lone surrogate, one row is written, not one for each match:
  the second row cannot be encoded and the run stops there.
\<close>

theorem pattern_strategy_example_counterexample:
  "files (pdf_scraper
       (Pages [Inr (py ''CONFIDENTIALITY: the property of being accessible only to authorized parties. INTEGRITY: the assurance of data accuracy.'')])
       Map.empty) terms_csv
   \<noteq> Some [header3,
        [py ''CONFIDENTIALITY'', py ''the property of being accessible only to authorized parties'', pdf_name],
        [py ''INTEGRITY'', py ''the assurance of data accuracy'', pdf_name]]
   \<and> findall surrogate_text =
       [(py ''A'', py ''b''), (py '' C'', [55296]), (py '' D'', py ''e'')]
   \<and> pdf_scraper (Pages [Inr surrogate_text]) Map.empty =
       \<lparr>raised = Some UnicodeEncodeError,
        files = [terms_csv \<mapsto> [header3, [py ''A'', py ''b'', pdf_name]]]\<rparr>"
proof -
  have 1: "files (pdf_scraper
       (Pages [Inr (py ''CONFIDENTIALITY: the property of being accessible only to authorized parties. INTEGRITY: the assurance of data accuracy.'')])
       Map.empty) terms_csv
   \<noteq> Some [header3,
        [py ''CONFIDENTIALITY'', py ''the property of being accessible only to authorized parties'', pdf_name],
        [py ''INTEGRITY'', py ''the assurance of data accuracy'', pdf_name]]"
    using pdf_scraper_texts[of "[py ''CONFIDENTIALITY: the property of being accessible only to authorized parties. INTEGRITY: the assurance of data accuracy.'']" Map.empty]
    by (simp add: page_rows_def example_findall) (simp add: row_eval)
  have 2: "pdf_scraper (Pages [Inr surrogate_text]) Map.empty =
       \<lparr>raised = Some UnicodeEncodeError,
        files = [terms_csv \<mapsto> [header3, [py ''A'', py ''b'', pdf_name]]]\<rparr>"
    using pdf_scraper_texts[of "[surrogate_text]" Map.empty]
    by (simp add: page_rows_def surrogate_findall) (simp add: row_eval)
  from 1 2 surrogate_findall show ?thesis by simp
qed

lemma page_body_ok: "pattern_rows_ok w \<Longrightarrow> pattern_rows_ok (snd (page_body page w))"
proof (cases page)
  case (Inl e)
  assume "pattern_rows_ok w"
  with Inl show ?thesis by (simp add: page_body_def)
next
  case (Inr page_text)
  assume "pattern_rows_ok w"
  moreover have "\<exists>t d. r = [t, d, pdf_name] \<and>
      t \<noteq> [] \<and> list_all in_term_class t \<and> d \<noteq> [] \<and> list_all in_def_class d"
    if "r \<in> set (takeWhile (list_all encodable) (page_rows page_text))" for r
  proof -
    from that have "r \<in> set (page_rows page_text)" by (auto dest: set_takeWhileD)
    then obtain t d where "(t, d) \<in> set (findall page_text)" "r = [t, d, pdf_name]"
      by (auto simp: page_rows_def)
    then show ?thesis using findall_entries by blast
  qed
  ultimately show ?thesis
    using Inr by (auto simp: page_body_rows for_each_writerow pattern_rows_ok_def)
qed

lemma pdf_scraper_ok:
  "\<exists>w. files (pdf_scraper (Pages pages) fs) terms_csv = Some w \<and> pattern_rows_ok w"
proof -
  have "pattern_rows_ok [header3]"
    by (simp add: pattern_rows_ok_def)
  then have "pattern_rows_ok (snd (for_each page_body pages [header3]))"
    by (intro for_each_invariant[where I = pattern_rows_ok] page_body_ok)
  then show ?thesis
    by (auto simp: pdf_scraper_def with_open_def and_then_def writerow_header3 split: prod.splits)
qed

text \<open>
  Claim C10. Every row that \<open>pdf_scraper.py\<close> writes after the header holds a term, a
  definition and the file name of the PDF; the term is non-empty and made of uppercase ASCII
  letters and whitespace only, the definition is non-empty and has no period in it.
\<close>

theorem pattern_strategy_entries:
  assumes "files (pdf_scraper (Pages pages) fs) terms_csv = Some (hdr # rows)"
    and "r \<in> set rows"
  shows "\<exists>t d. r = [t, d, pdf_name] \<and>
     t \<noteq> [] \<and> list_all (\<lambda>c. is_upper c \<or> is_space c) t \<and>
     d \<noteq> [] \<and> period \<notin> set d"
proof -
  from pdf_scraper_ok[of pages fs] assms(1) have "pattern_rows_ok (hdr # rows)" by auto
  with assms(2) obtain t d where r: "r = [t, d, pdf_name]"
    and "t \<noteq> [] \<and> list_all in_term_class t \<and> d \<noteq> [] \<and> list_all in_def_class d"
    by (auto simp: pattern_rows_ok_def)
  then show ?thesis
    by (auto simp: list_all_iff in_term_class_def in_def_class_def)
qed

theorem pattern_strategy_entries_witness:
  "files (pdf_scraper (Pages [Inr (py ''A: b.'')]) Map.empty) terms_csv =
     Some (header3 # [[py ''A'', py ''b'', pdf_name]])
   \<and> [py ''A'', py ''b'', pdf_name] \<in> set [[py ''A'', py ''b'', pdf_name]]
   \<and> (\<exists>t d. [py ''A'', py ''b'', pdf_name] = [t, d, pdf_name] \<and>
     t \<noteq> [] \<and> list_all (\<lambda>c. is_upper c \<or> is_space c) t \<and>
     d \<noteq> [] \<and> period \<notin> set d)"
proof -
  have h: "files (pdf_scraper (Pages [Inr (py ''A: b.'')]) Map.empty) terms_csv =
     Some (header3 # [[py ''A'', py ''b'', pdf_name]])"
    by (simp add: small_scrape)
  show ?thesis
    using h pattern_strategy_entries[OF h, of "[py ''A'', py ''b'', pdf_name]"] by simp
qed

section \<open>Strings: stripping and joining\<close>


lemma trimmed_iff: "trimmed s \<longleftrightarrow> s = [] \<or> (\<not> is_space (hd s) \<and> \<not> is_space (last s))"
proof (cases "s = []")
  case True
  then show ?thesis by (simp add: trimmed_def strip_def)
next
  case False
  show ?thesis
  proof
    assume "trimmed s"
    then have eq: "rev (dropWhile is_space (rev (dropWhile is_space s))) = s"
      by (simp add: trimmed_def strip_def)
    let ?u = "dropWhile is_space s"
    let ?t = "dropWhile is_space (rev ?u)"
    from eq False have t: "?t \<noteq> []" by (metis rev.simps(1))
    then have "\<not> is_space (hd ?t)" by (rule hd_dropWhile)
    moreover have "hd ?t = last s" using eq t by (metis hd_rev rev_rev_ident)
    ultimately have l: "\<not> is_space (last s)" by simp
    have "length ?t \<le> length ?u" by (metis length_dropWhile_le length_rev)
    moreover have "length ?u \<le> length s" by (rule length_dropWhile_le)
    moreover have "length ?t = length s" using eq by (metis length_rev)
    ultimately have "length ?u = length s" by simp
    then have "?u = s"
      by (metis takeWhile_dropWhile_id append_eq_append_conv append_Nil)
    then have "\<not> is_space (hd s)" using False by (metis hd_dropWhile)
    with l False show "s = [] \<or> (\<not> is_space (hd s) \<and> \<not> is_space (last s))" by simp
  next
    assume "s = [] \<or> (\<not> is_space (hd s) \<and> \<not> is_space (last s))"
    with False have h: "\<not> is_space (hd s)" and l: "\<not> is_space (last s)" by auto
    from h have 1: "dropWhile is_space s = s" by (simp add: dropWhile_eq_self_iff)
    from l False have 2: "dropWhile is_space (rev s) = rev s"
      by (simp add: dropWhile_eq_self_iff hd_rev)
    show "trimmed s" by (simp add: trimmed_def strip_def 1 2)
  qed
qed

lemma trimmed_strip: "trimmed (strip s)"
proof (cases "strip s = []")
  case True
  then show ?thesis by (simp add: trimmed_iff)
next
  case False
  let ?u = "dropWhile is_space s"
  let ?t = "dropWhile is_space (rev ?u)"
  from False have t: "?t \<noteq> []" by (simp add: strip_def)
  then have u: "?u \<noteq> []" by (metis dropWhile.simps(1) rev.simps(1))
  have "\<not> is_space (hd ?t)" using t by (rule hd_dropWhile)
  then have l: "\<not> is_space (last (strip s))"
    using t by (simp add: strip_def last_rev)
  have "rev ?u = takeWhile is_space (rev ?u) @ ?t" by simp
  then have "?u = rev ?t @ rev (takeWhile is_space (rev ?u))"
    by (metis rev_append rev_rev_ident)
  then have "hd ?u = hd (rev ?t)" using t by (metis hd_append2 rev_is_Nil_conv)
  moreover have "\<not> is_space (hd ?u)" using u by (rule hd_dropWhile)
  ultimately have "\<not> is_space (hd (strip s))" by (simp add: strip_def)
  with l show ?thesis by (simp add: trimmed_iff)
qed

lemma trimmed_concat:
  assumes "\<forall>x \<in> set xs. x \<noteq> [] \<and> trimmed x"
  shows "trimmed (concat xs)"
proof (cases xs rule: rev_cases)
  case Nil
  then show ?thesis by (simp add: trimmed_iff)
next
  case (snoc ys y)
  from snoc have "xs \<noteq> []" by simp
  then obtain x zs where xs: "xs = x # zs" by (cases xs) auto
  from assms xs have x: "x \<noteq> []" "\<not> is_space (hd x)" by (auto simp: trimmed_iff)
  from assms snoc have y: "y \<noteq> []" "\<not> is_space (last y)" by (auto simp: trimmed_iff)
  have "hd (concat xs) = hd x" using xs x by simp
  moreover have "last (concat xs) = last y" using snoc y by simp
  ultimately show ?thesis using x y by (simp add: trimmed_iff)
qed

lemma join_eq_Nil: "\<forall>x \<in> set xs. x \<noteq> [] \<Longrightarrow> join sep xs = [] \<longleftrightarrow> xs = []"
  by (induction sep xs rule: join.induct) auto

lemma hd_join: "xs \<noteq> [] \<Longrightarrow> hd xs \<noteq> [] \<Longrightarrow> hd (join sep xs) = hd (hd xs)"
  by (induction sep xs rule: join.induct) auto

lemma last_join:
  "xs \<noteq> [] \<Longrightarrow> \<forall>x \<in> set xs. x \<noteq> [] \<Longrightarrow> last (join sep xs) = last (last xs)"
  by (induction sep xs rule: join.induct) (auto simp: join_eq_Nil)

lemma trimmed_join:
  assumes "\<forall>x \<in> set xs. x \<noteq> [] \<and> trimmed x"
  shows "trimmed (join sep xs)"
proof (cases "xs = []")
  case True
  then show ?thesis by (simp add: trimmed_iff)
next
  case False
  then have "hd xs \<in> set xs" "last xs \<in> set xs" by simp_all
  with assms have "\<not> is_space (hd (hd xs))" "\<not> is_space (last (last xs))" "hd xs \<noteq> []"
    by (auto simp: trimmed_iff)
  with assms False show ?thesis
    by (simp add: trimmed_iff hd_join last_join)
qed

lemma trimmed_get_text_strip: "trimmed (get_text_strip e)"
  unfolding get_text_strip_def by (rule trimmed_concat) (auto simp: trimmed_strip)

lemma set_join: "set (join sep xs) \<subseteq> set sep \<union> \<Union> (set ` set xs)"
  by (induction sep xs rule: join.induct) auto






section \<open>Text that the output file can take\<close>

lemma encodable_subset: "set t \<subseteq> set s \<Longrightarrow> encodable s \<Longrightarrow> encodable t"
  by (auto simp: encodable_def list_all_iff)

lemma set_strip: "set (strip s) \<subseteq> set s"
  by (auto simp: strip_def dest!: set_dropWhileD)

lemma encodable_strip: "encodable s \<Longrightarrow> encodable (strip s)"
  using set_strip by (rule encodable_subset)

lemma encodable_concat: "\<forall>x \<in> set xs. encodable x \<Longrightarrow> encodable (concat xs)"
  by (auto simp: encodable_def list_all_iff)

lemma encodable_join:
  assumes "encodable sep" and "\<forall>x \<in> set xs. encodable x"
  shows "encodable (join sep xs)"
proof -
  have "set (join sep xs) \<subseteq> set sep \<union> \<Union> (set ` set xs)" by (rule set_join)
  with assms show ?thesis by (fastforce simp: encodable_def list_all_iff)
qed

lemma descendants_encodable:
  "\<forall>k \<in> set ks. encodable_node k \<Longrightarrow> (x, sibs) \<in> set (descendants ks) \<Longrightarrow>
   encodable_node x \<and> (\<forall>y \<in> set sibs. encodable_node y)"
  by (induction ks rule: descendants.induct) auto

lemma contents_encodable: "encodable_node e \<Longrightarrow> \<forall>k \<in> set (contents e). encodable_node k"
  by (cases e) auto

lemma descendant_encodable:
  assumes "encodable_node e" and "(x, sibs) \<in> set (descendants (contents e))"
  shows "encodable_node x \<and> (\<forall>y \<in> set sibs. encodable_node y)"
  using contents_encodable[OF assms(1)] assms(2) by (rule descendants_encodable)

lemma find_all_encodable:
  assumes "encodable_node e" and "x \<in> set (find_all name e)"
  shows "encodable_node x"
proof -
  from assms(2) obtain sibs where "(x, sibs) \<in> set (descendants (contents e))"
    by (auto simp: find_all_def)
  with assms(1) show ?thesis using descendant_encodable by blast
qed

lemma find_encodable:
  assumes "encodable_node e" and "find name e = Some (x, sibs)"
  shows "encodable_node x \<and> (\<forall>y \<in> set sibs. encodable_node y)"
proof -
  from assms(2) have "(x, sibs) \<in> set (descendants (contents e))"
    unfolding find_def by (metis find_Some_iff nth_mem)
  with assms(1) show ?thesis by (rule descendant_encodable)
qed

lemma plain_text_encodable: "encodable_node x \<Longrightarrow> plain_text x = Some s \<Longrightarrow> encodable s"
  by (cases x) auto

lemma encodable_get_text_strip:
  assumes "encodable_node e"
  shows "encodable (get_text_strip e)"
  unfolding get_text_strip_def
proof (rule encodable_concat, rule ballI)
  fix s
  assume "s \<in> set (filter (\<lambda>s. s \<noteq> [])
      (map strip (List.map_filter plain_text (map fst (descendants (contents e))))))"
  then obtain x sibs t where "(x, sibs) \<in> set (descendants (contents e))"
    and "plain_text x = Some t" and s: "s = strip t"
    by (auto simp: List.map_filter_def)
  with assms have "encodable t"
    using descendant_encodable plain_text_encodable by blast
  with s show "encodable s" by (simp add: encodable_strip)
qed

section \<open>\<open>owasp_scrape.py\<close>: the section loop\<close>

lemma section_body_entry:
  "section_body s w =
     (case section_entry s of None \<Rightarrow> (Some AttributeError, w) | Some r \<Rightarrow> writerow r w)"
  by (auto simp: section_body_def section_entry_def split: option.splits)

lemma section_entry_None:
  "section_entry s = None \<longleftrightarrow> find (py ''h1'') s = None \<or> find (py ''p'') s = None"
  by (auto simp: section_entry_def split: option.splits)

lemma section_entry_encodable:
  assumes "encodable_node s" and "section_entry s = Some r"
  shows "list_all encodable r"
proof -
  from assms(2) obtain h hs p ps where h: "find (py ''h1'') s = Some (h, hs)"
    and p: "find (py ''p'') s = Some (p, ps)" and r: "r = [get_text_strip h, get_text_strip p]"
    by (auto simp: section_entry_def split: option.splits)
  from find_encodable[OF assms(1) h] find_encodable[OF assms(1) p] r show ?thesis
    by (simp add: encodable_get_text_strip)
qed

lemma for_each_sections_ok:
  "\<forall>s \<in> set ss. section_entry s \<noteq> None \<and> encodable_node s \<Longrightarrow>
   for_each section_body ss w = (None, w @ map (\<lambda>s. the (section_entry s)) ss)"
proof (induction ss arbitrary: w)
  case Nil
  show ?case by simp
next
  case (Cons s ss)
  then obtain r where r: "section_entry s = Some r" and "encodable_node s" by auto
  then have "list_all encodable r" using section_entry_encodable by blast
  with r have "section_body s w = (None, w @ [r])"
    by (simp add: section_body_entry writerow_def)
  with Cons r show ?case by simp
qed

lemma for_each_sections_prefix:
  "\<forall>s \<in> set ss. section_entry s \<noteq> None \<Longrightarrow>
   \<exists>k. snd (for_each section_body ss w) = w @ map (\<lambda>s. the (section_entry s)) (take k ss)"
proof (induction ss arbitrary: w)
  case Nil
  show ?case by simp
next
  case (Cons s ss)
  then obtain r where r: "section_entry s = Some r" by auto
  show ?case
  proof (cases "list_all encodable r")
    case True
    with r have b: "section_body s w = (None, w @ [r])"
      by (simp add: section_body_entry writerow_def)
    from Cons.prems have "\<forall>s \<in> set ss. section_entry s \<noteq> None" by simp
    from Cons.IH[OF this, of "w @ [r]"] obtain k where
      "snd (for_each section_body ss (w @ [r])) = (w @ [r]) @ map (\<lambda>s. the (section_entry s)) (take k ss)"
      by blast
    with b r have "snd (for_each section_body (s # ss) w) =
        w @ map (\<lambda>s. the (section_entry s)) (take (Suc k) (s # ss))"
      by simp
    then show ?thesis by blast
  next
    case False
    with r have "section_body s w = (Some UnicodeEncodeError, w)"
      by (simp add: section_body_entry writerow_def)
    then have "snd (for_each section_body (s # ss) w) =
        w @ map (\<lambda>s. the (section_entry s)) (take 0 (s # ss))"
      by simp
    then show ?thesis by blast
  qed
qed

lemma map_Some_the: "\<forall>x \<in> set xs. f x \<noteq> None \<Longrightarrow> map Some (map (\<lambda>x. the (f x)) xs) = map f xs"
  by (induction xs) auto

lemma owasp_scrape_fetched:
  assumes "get url = Inr response"
  shows "owasp_scrape get fs =
     \<lparr>raised = fst (for_each section_body
         (filter (\<lambda>x. is_tag (py ''div'') x \<and> has_class (py ''section'') x)
            (map fst (descendants (content response)))) [header2]),
      files = fs(owasp_terms_csv \<mapsto> snd (for_each section_body
         (filter (\<lambda>x. is_tag (py ''div'') x \<and> has_class (py ''section'') x)
            (map fst (descendants (content response)))) [header2]))\<rparr>"
  using assms
  by (simp add: owasp_scrape_def with_open_def and_then_def writerow_header2 find_all_class_def
      BeautifulSoup_def split: prod.splits)

text \<open>
  Claim C5, as amended. When the page is fetched and each of its \<open>N\<close> sections (the \<open>div\<close>
  tags of class \<open>section\<close> anywhere in the page, in document order) has an \<open>h1\<close> and a
  \<open>p\<close> below it and holds no text that cannot be encoded, the run raises nothing and
  writes, after the header, exactly \<open>N\<close> rows: the row of each section, in document order.
\<close>

theorem section_strategy_all_sections:
  assumes "get url = Inr response"
    and "sections = filter (\<lambda>x. is_tag (py ''div'') x \<and> has_class (py ''section'') x)
           (map fst (descendants (content response)))"
    and "\<forall>s \<in> set sections.
           find (py ''h1'') s \<noteq> None \<and> find (py ''p'') s \<noteq> None \<and> encodable_node s"
  shows "raised (owasp_scrape get fs) = None \<and>
    (\<exists>entries. files (owasp_scrape get fs) owasp_terms_csv = Some (header2 # entries) \<and>
       length entries = length sections \<and>
       map Some entries = map section_entry sections)"
proof -
  from assms(3) have ok: "\<forall>s \<in> set sections. section_entry s \<noteq> None \<and> encodable_node s"
    by (simp add: section_entry_None)
  then have some: "\<forall>s \<in> set sections. section_entry s \<noteq> None" by simp
  have "for_each section_body sections [header2] =
      (None, header2 # map (\<lambda>s. the (section_entry s)) sections)"
    using for_each_sections_ok[OF ok] by simp
  then have "owasp_scrape get fs =
     \<lparr>raised = None, files = fs(owasp_terms_csv \<mapsto> header2 # map (\<lambda>s. the (section_entry s)) sections)\<rparr>"
    using assms(2) by (simp add: owasp_scrape_fetched[of get response fs, OF assms(1)])
  then show ?thesis using map_Some_the[OF some] by simp
qed

text \<open>
  Claim C2, as amended. When the page is fetched and a section has no \<open>h1\<close> or no \<open>p\<close>
  below it, while every section before it has both, the run aborts: it raises, the header
  and the rows of sections before that one stay written, and no row is written for that
  section or for any section after it. When the sections before it hold no text that
  cannot be encoded, the run aborts at that section with \<open>AttributeError\<close> and the rows of
  all the sections before it are written.
\<close>

theorem section_strategy_missing_field_aborts:
  assumes "get url = Inr response"
    and "filter (\<lambda>x. is_tag (py ''div'') x \<and> has_class (py ''section'') x)
           (map fst (descendants (content response))) = before @ section # after"
    and "\<forall>s \<in> set before. find (py ''h1'') s \<noteq> None \<and> find (py ''p'') s \<noteq> None"
    and "find (py ''h1'') section = None \<or> find (py ''p'') section = None"
  shows "raised (owasp_scrape get fs) \<noteq> None \<and>
    (\<exists>entries rest. files (owasp_scrape get fs) owasp_terms_csv = Some (header2 # entries) \<and>
       map section_entry before = map Some entries @ rest) \<and>
    ((\<forall>s \<in> set before. encodable_node s) \<longrightarrow>
       raised (owasp_scrape get fs) = Some AttributeError \<and>
       (\<exists>entries. files (owasp_scrape get fs) owasp_terms_csv = Some (header2 # entries) \<and>
          map Some entries = map section_entry before))"
proof -
  let ?run = "for_each section_body (before @ section # after) [header2]"
  from assms(3) have some: "\<forall>s \<in> set before. section_entry s \<noteq> None"
    by (simp add: section_entry_None)
  from assms(4) have bad: "section_entry section = None"
    by (simp add: section_entry_None)
  have out: "owasp_scrape get fs = \<lparr>raised = fst ?run, files = fs(owasp_terms_csv \<mapsto> snd ?run)\<rparr>"
    using assms(2) by (simp add: owasp_scrape_fetched[of get response fs, OF assms(1)])
  obtain e w where b: "for_each section_body before [header2] = (e, w)"
    by (cases "for_each section_body before [header2]") auto
  from for_each_sections_prefix[OF some, of "[header2]"] b obtain k where
    w: "w = header2 # map (\<lambda>s. the (section_entry s)) (take k before)"
    by auto
  have run: "fst ?run \<noteq> None \<and> snd ?run = w"
    using b bad by (cases e) (simp_all add: for_each_append section_body_entry)
  have "map section_entry before =
      map Some (map (\<lambda>s. the (section_entry s)) (take k before)) @ map section_entry (drop k before)"
  proof -
    have "\<forall>s \<in> set (take k before). section_entry s \<noteq> None"
      using some by (auto dest: in_set_takeD)
    then have "map Some (map (\<lambda>s. the (section_entry s)) (take k before)) =
        map section_entry (take k before)"
      by (rule map_Some_the)
    moreover have "map section_entry before =
        map section_entry (take k before) @ map section_entry (drop k before)"
      by (simp flip: map_append)
    ultimately show ?thesis by simp
  qed
  with out run w have 1: "raised (owasp_scrape get fs) \<noteq> None \<and>
    (\<exists>entries rest. files (owasp_scrape get fs) owasp_terms_csv = Some (header2 # entries) \<and>
       map section_entry before = map Some entries @ rest)"
    by auto
  have 2: "raised (owasp_scrape get fs) = Some AttributeError \<and>
       (\<exists>entries. files (owasp_scrape get fs) owasp_terms_csv = Some (header2 # entries) \<and>
          map Some entries = map section_entry before)"
    if enc: "\<forall>s \<in> set before. encodable_node s"
  proof -
    from some enc have ok: "\<forall>s \<in> set before. section_entry s \<noteq> None \<and> encodable_node s"
      by simp
    have "?run = (Some AttributeError, header2 # map (\<lambda>s. the (section_entry s)) before)"
      using for_each_sections_ok[OF ok, of "[header2]"] bad
      by (simp add: for_each_append section_body_entry)
    with out show ?thesis using map_Some_the[OF some] by simp
  qed
  from 1 2 show ?thesis by blast
qed

lemmas tree_eval = find_all_def find_all_class_def find_def get_text_strip_def strip_def
  BeautifulSoup_def py_def is_space_def

lemmas owasp_eval = owasp_scrape_def with_open_def and_then_def writerow_def encodable_def
  section_body_def page200_def page404_def

lemma owasp_two:
  "owasp_scrape (page200 two_sections) Map.empty =
     \<lparr>raised = None,
      files = [owasp_terms_csv \<mapsto>
        [header2, [py ''XSS'', py ''Cross-site scripting.''], [py ''CSRF'', py ''Request forgery.'']]]\<rparr>"
  by (simp add: two_sections_def owasp_eval tree_eval header2_def)

theorem section_strategy_all_sections_witness:
  "raised (owasp_scrape (page200 wrapped_sections) Map.empty) = None \<and>
   (\<exists>entries. files (owasp_scrape (page200 wrapped_sections) Map.empty) owasp_terms_csv =
        Some (header2 # entries) \<and>
      length entries = 2 \<and>
      map Some entries =
        [Some [py ''XSS'', py ''Cross-site scripting.''], Some [py ''CSRF'', py ''Requestforgery.'']])"
proof -
  let ?sections =
    "[Tag (py ''div'') [py ''section'']
        [Tag (py ''h1'') [] [NavigableString (py '' XSS '')],
         Tag (py ''p'') [] [NavigableString (py ''Cross-site scripting.'')]],
      Tag (py ''div'') [py ''toc'', py ''section'']
        [Tag (py ''h1'') [] [NavigableString (py ''CSRF'')],
         Tag (py ''p'') []
           [NavigableString (py ''Request ''),
            Tag (py ''em'') [] [NavigableString (py '' forgery.'')]]]]"
  have 1: "page200 wrapped_sections url = Inr \<lparr>status_code = 200, content = wrapped_sections\<rparr>"
    by (simp add: page200_def)
  have 2: "?sections = filter (\<lambda>x. is_tag (py ''div'') x \<and> has_class (py ''section'') x)
      (map fst (descendants (content \<lparr>status_code = 200, content = wrapped_sections\<rparr>)))"
    by (simp add: wrapped_sections_def py_def)
  have 3: "\<forall>s \<in> set ?sections.
      find (py ''h1'') s \<noteq> None \<and> find (py ''p'') s \<noteq> None \<and> encodable_node s"
    by (simp add: tree_eval encodable_def)
  have 4: "map section_entry ?sections =
      [Some [py ''XSS'', py ''Cross-site scripting.''], Some [py ''CSRF'', py ''Requestforgery.'']]"
    by (simp add: section_entry_def tree_eval)
  have 5: "length ?sections = 2" by simp
  show ?thesis
    using section_strategy_all_sections[of "page200 wrapped_sections"
        "\<lparr>status_code = 200, content = wrapped_sections\<rparr>" ?sections Map.empty, OF 1 2 3]
    by (simp only: 4 5)
qed

text \<open>
  Claim C5 as stated fails: a section whose heading is an \<open>h2\<close> has a heading element and
  a paragraph, but the script looks for an \<open>h1\<close>; the run raises and writes no entry. And
  a section with an \<open>h1\<close> and a \<open>p\<close> whose heading holds a lone surrogate gets no entry
  either: its row cannot be encoded.
\<close>

theorem section_strategy_subheading_counterexample:
  "find (py ''h2'') subheading_section \<noteq> None \<and>
   find (py ''p'') subheading_section \<noteq> None \<and>
   owasp_scrape (page200 [subheading_section]) Map.empty =
     \<lparr>raised = Some AttributeError, files = [owasp_terms_csv \<mapsto> [header2]]\<rparr> \<and>
   find (py ''h1'') surrogate_section \<noteq> None \<and>
   find (py ''p'') surrogate_section \<noteq> None \<and>
   owasp_scrape (page200 [surrogate_section]) Map.empty =
     \<lparr>raised = Some UnicodeEncodeError, files = [owasp_terms_csv \<mapsto> [header2]]\<rparr>"
  by (simp add: subheading_section_def surrogate_section_def owasp_eval tree_eval header2_def)

theorem section_strategy_missing_field_aborts_witness:
  "raised (owasp_scrape (page200 headless_section) Map.empty) = Some AttributeError \<and>
   (\<exists>entries. files (owasp_scrape (page200 headless_section) Map.empty) owasp_terms_csv =
        Some (header2 # entries) \<and>
      map Some entries = [Some [py ''XSS'', py ''Cross-site scripting.'']])"
proof -
  let ?before = "[Tag (py ''div'') [py ''section'']
        [Tag (py ''h1'') [] [NavigableString (py '' XSS '')],
         Tag (py ''p'') [] [NavigableString (py ''Cross-site scripting.'')]]]"
  let ?section = "Tag (py ''div'') [py ''section'']
        [Tag (py ''h2'') [] [NavigableString (py ''SSRF'')],
         Tag (py ''p'') [] [NavigableString (py ''Server-side forgery.'')]]"
  let ?after = "[Tag (py ''div'') [py ''section'']
        [Tag (py ''h1'') [] [NavigableString (py ''CSRF'')],
         Tag (py ''p'') [] [NavigableString (py ''Request forgery.'')]]]"
  have 1: "page200 headless_section url = Inr \<lparr>status_code = 200, content = headless_section\<rparr>"
    by (simp add: page200_def)
  have 2: "filter (\<lambda>x. is_tag (py ''div'') x \<and> has_class (py ''section'') x)
      (map fst (descendants (content \<lparr>status_code = 200, content = headless_section\<rparr>))) =
      ?before @ ?section # ?after"
    by (simp add: headless_section_def py_def)
  have 3: "\<forall>s \<in> set ?before. find (py ''h1'') s \<noteq> None \<and> find (py ''p'') s \<noteq> None"
    by (simp add: tree_eval)
  have 4: "find (py ''h1'') ?section = None \<or> find (py ''p'') ?section = None"
    by (simp add: tree_eval)
  have 5: "map section_entry ?before = [Some [py ''XSS'', py ''Cross-site scripting.'']]"
    by (simp add: section_entry_def tree_eval)
  have 6: "\<forall>s \<in> set ?before. encodable_node s"
    by (simp add: encodable_def py_def)
  show ?thesis
    using section_strategy_missing_field_aborts[of "page200 headless_section"
        "\<lparr>status_code = 200, content = headless_section\<rparr>" ?before ?section ?after Map.empty,
        OF 1 2 3 4] 6
    by (simp only: 5)
qed

text \<open>
  Claim C2 as stated fails: of three sections, the second without an \<open>h1\<close>, the run
  writes the row of the first and raises; the third section, which has both a heading and a
  paragraph, gets no row.
\<close>

theorem section_strategy_skip_counterexample:
  "owasp_scrape (page200 headless_section) Map.empty =
     \<lparr>raised = Some AttributeError,
      files = [owasp_terms_csv \<mapsto> [header2, [py ''XSS'', py ''Cross-site scripting.'']]]\<rparr>"
  by (simp add: headless_section_def owasp_eval tree_eval header2_def)

section \<open>\<open>scraper.py\<close>: the loops\<close>

lemma paragraph_body_rows: "paragraph_body u p w = for_each writerow (paragraph_rows u p) w"
  by (cases "writerow [get_text_strip (fst (the (find (py ''strong'') p))),
        join (py '' '') (filter (\<lambda>part. part \<noteq> [])
          (map (\<lambda>sibling. strip (str sibling))
            (filter isinstance_NavigableString (snd (the (find (py ''strong'') p)))))), u] w")
    (auto simp: paragraph_body_def paragraph_rows_def Let_def split: option.splits)

lemma cell_body_rows: "cell_body u c w = for_each writerow (cell_rows u c) w"
proof -
  have "paragraph_body u = (\<lambda>p. for_each writerow (paragraph_rows u p))"
    by (intro ext) (rule paragraph_body_rows)
  then show ?thesis
    by (simp add: cell_body_def cell_rows_def for_each_nested)
qed

lemma row_body_rows: "row_body u r w = for_each writerow (row_rows u r) w"
proof -
  have "cell_body u = (\<lambda>c. for_each writerow (cell_rows u c))"
    by (intro ext) (rule cell_body_rows)
  then show ?thesis
    by (simp add: row_body_def row_rows_def for_each_nested)
qed

lemma table_body_rows:
  "table_body u table w =
     (case find (py ''tbody'') table of
        None \<Rightarrow> (Some AttributeError, w)
      | Some (tbody, _) \<Rightarrow> for_each writerow (tbody_rows u tbody) w)"
proof -
  have "row_body u = (\<lambda>r. for_each writerow (row_rows u r))"
    by (intro ext) (rule row_body_rows)
  then show ?thesis
    by (simp add: table_body_def tbody_rows_def for_each_nested split: option.splits)
qed

lemma paragraph_rows_encodable:
  assumes "encodable_node p" and "encodable u" and "r \<in> set (paragraph_rows u p)"
  shows "list_all encodable r"
proof (cases "find (py ''strong'') p")
  case None
  with assms(3) show ?thesis by (simp add: paragraph_rows_def)
next
  case (Some a)
  obtain term_tag sibs where a: "a = (term_tag, sibs)" by (cases a) auto
  from find_encodable[OF assms(1)] Some a
  have t: "encodable_node term_tag" and s: "\<forall>y \<in> set sibs. encodable_node y" by auto
  have "encodable (strip (str y))" if "y \<in> set sibs" for y
  proof -
    have "encodable (str y)"
      using s that by (cases y) (auto simp: encodable_def)
    then show ?thesis by (rule encodable_strip)
  qed
  then have "encodable (join (py '' '') (filter (\<lambda>part. part \<noteq> [])
      (map (\<lambda>sibling. strip (str sibling)) (filter isinstance_NavigableString sibs))))"
    by (intro encodable_join) (auto simp: encodable_def py_def)
  with assms(2,3) Some a t show ?thesis
    by (auto simp: paragraph_rows_def Let_def encodable_get_text_strip split: if_splits)
qed

lemma tbody_rows_paragraph:
  assumes "r \<in> set (tbody_rows u tbody)"
  shows "\<exists>tr td p. tr \<in> set (find_all (py ''tr'') tbody) \<and> td \<in> set (find_all (py ''td'') tr) \<and>
     p \<in> set (find_all (py ''p'') td) \<and> r \<in> set (paragraph_rows u p)"
  using assms by (auto simp: tbody_rows_def row_rows_def cell_rows_def)

lemma tbody_rows_encodable:
  assumes "encodable_node tbody" and "encodable u"
  shows "list_all (list_all encodable) (tbody_rows u tbody)"
  unfolding list_all_iff
proof
  fix r assume "r \<in> set (tbody_rows u tbody)"
  then obtain tr td p where "tr \<in> set (find_all (py ''tr'') tbody)"
    "td \<in> set (find_all (py ''td'') tr)" "p \<in> set (find_all (py ''p'') td)"
    and r: "r \<in> set (paragraph_rows u p)"
    using tbody_rows_paragraph by blast
  with assms(1) have "encodable_node p"
    using find_all_encodable by blast
  then have "list_all encodable r" using assms(2) r by (rule paragraph_rows_encodable)
  then show "Ball (set r) encodable" by (simp add: list_all_iff)
qed

lemma table_body_no_tbody:
  "find (py ''tbody'') t = None \<Longrightarrow> table_body u t w = (Some AttributeError, w)"
  by (simp add: table_body_rows)

lemma table_body_AttributeError:
  "fst (table_body u t w) = Some AttributeError \<Longrightarrow> find (py ''tbody'') t = None"
  by (auto simp: table_body_rows for_each_writerow split: option.splits if_splits)

lemma table_body_encodable:
  assumes "encodable_node t" and "encodable u" and "find (py ''tbody'') t \<noteq> None"
  shows "fst (table_body u t w) = None"
proof -
  from assms(3) obtain tbody sibs where f: "find (py ''tbody'') t = Some (tbody, sibs)" by auto
  with assms(1) have "encodable_node tbody" using find_encodable by blast
  then have "list_all (list_all encodable) (tbody_rows u tbody)"
    using assms(2) by (rule tbody_rows_encodable)
  with f show ?thesis by (simp add: table_body_rows for_each_writerow)
qed

lemma for_each_tables_AttributeError:
  "fst (for_each (table_body u) ts w) = Some AttributeError \<Longrightarrow>
   \<exists>t \<in> set ts. find (py ''tbody'') t = None"
proof (induction ts arbitrary: w)
  case Nil
  then show ?case by simp
next
  case (Cons t ts)
  obtain e w' where b: "table_body u t w = (e, w')" by (cases "table_body u t w") auto
  show ?case
  proof (cases e)
    case None
    with b Cons.prems have "fst (for_each (table_body u) ts w') = Some AttributeError" by simp
    then show ?thesis using Cons.IH by auto
  next
    case (Some a)
    with b Cons.prems have "fst (table_body u t w) = Some AttributeError" by simp
    then show ?thesis using table_body_AttributeError by auto
  qed
qed

lemma for_each_tables_aborts:
  "\<exists>t \<in> set ts. find (py ''tbody'') t = None \<Longrightarrow> fst (for_each (table_body u) ts w) \<noteq> None"
proof (induction ts arbitrary: w)
  case Nil
  then show ?case by simp
next
  case (Cons t ts)
  obtain e w' where b: "table_body u t w = (e, w')" by (cases "table_body u t w") auto
  show ?case
  proof (cases e)
    case None
    have "find (py ''tbody'') t \<noteq> None"
    proof
      assume "find (py ''tbody'') t = None"
      then have "table_body u t w = (Some AttributeError, w)" by (rule table_body_no_tbody)
      with b None show False by simp
    qed
    with Cons.prems have "\<exists>t \<in> set ts. find (py ''tbody'') t = None" by auto
    then have "fst (for_each (table_body u) ts w') \<noteq> None" by (rule Cons.IH)
    with b None show ?thesis by simp
  next
    case (Some a)
    with b show ?thesis by simp
  qed
qed

lemma for_each_tables_encodable:
  assumes "\<forall>t \<in> set ts. encodable_node t" and "encodable u"
  shows "fst (for_each (table_body u) ts w) =
     (if \<exists>t \<in> set ts. find (py ''tbody'') t = None then Some AttributeError else None)"
  using assms(1)
proof (induction ts arbitrary: w)
  case Nil
  show ?case by simp
next
  case (Cons t ts)
  show ?case
  proof (cases "find (py ''tbody'') t = None")
    case True
    then have "table_body u t w = (Some AttributeError, w)" by (rule table_body_no_tbody)
    with True show ?thesis by simp
  next
    case False
    with Cons.prems assms(2) have "fst (table_body u t w) = None"
      by (intro table_body_encodable) auto
    then obtain w' where "table_body u t w = (None, w')"
      by (cases "table_body u t w") auto
    then have eq: "for_each (table_body u) (t # ts) w = for_each (table_body u) ts w'" by simp
    have IH: "fst (for_each (table_body u) ts w') =
        (if \<exists>t \<in> set ts. find (py ''tbody'') t = None then Some AttributeError else None)"
      using Cons.prems by (intro Cons.IH) simp
    have "(\<exists>x \<in> set (t # ts). find (py ''tbody'') x = None) \<longleftrightarrow>
        (\<exists>x \<in> set ts. find (py ''tbody'') x = None)"
      using False by auto
    then show ?thesis by (simp only: eq IH)
  qed
qed

lemma find_None_descendants:
  "find name e = None \<longleftrightarrow> \<not> list_ex (is_tag name) (map fst (descendants (contents e)))"
  by (auto simp: find_def List.find_None_iff list_ex_iff)

lemma child_is_descendant: "k \<in> set ks \<Longrightarrow> k \<in> fst ` set (descendants ks)"
  by (induction ks rule: descendants.induct) (auto simp: image_Un)

lemma find_child:
  assumes "list_ex (is_tag name) (contents e)"
  shows "find name e \<noteq> None"
proof -
  from assms obtain k where "k \<in> set (contents e)" "is_tag name k"
    by (auto simp: list_ex_iff)
  then have "k \<in> set (map fst (descendants (contents e)))"
    using child_is_descendant by simp
  with \<open>is_tag name k\<close> show ?thesis
    unfolding find_None_descendants list_ex_iff by blast
qed

lemma scrape_single:
  "scrape [u] get fs =
     (case get u of
        Inl e \<Rightarrow> \<lparr>raised = Some e, files = fs(terms_csv \<mapsto> [header3])\<rparr>
      | Inr response \<Rightarrow>
          \<lparr>raised = fst (for_each (table_body u)
                       (find_all (py ''table'') (BeautifulSoup (content response))) [header3]),
           files = fs(terms_csv \<mapsto> snd (for_each (table_body u)
                       (find_all (py ''table'') (BeautifulSoup (content response))) [header3]))\<rparr>)"
  by (auto simp: scrape_def with_open_def and_then_def writerow_header3 url_body_def Let_def
      split: sum.splits prod.splits option.splits)

lemmas table_eval = scrape_def scraper_def urls_def url_body_def table_body_def row_body_def
  cell_body_def paragraph_body_def with_open_def and_then_def writerow_def encodable_def
  page200_def page404_def

lemma urls_single: "urls = [hd urls]"
  by (simp add: urls_def)

lemma urls_encodable: "urls = [u] \<Longrightarrow> encodable u"
  by (auto simp: urls_def encodable_def py_def)

text \<open>
  Claim C9, as amended. With the page fetched, \<open>scraper.py\<close> raises \<open>AttributeError\<close>
  only when some table of the page has no \<open>tbody\<close> anywhere below it, and whenever some
  table has none the run aborts; a \<open>tbody\<close> child in every table is enough for that
  failing branch not to be reached. On a page all of whose text can be encoded, the run
  raises \<open>AttributeError\<close> exactly when some table has no \<open>tbody\<close> below it, and raises
  nothing exactly when every table has one below it, as a child or deeper: \<open>table.tbody\<close>
  searches all descendants.
\<close>

theorem table_strategy_tbody:
  assumes "urls = [u]" and "get u = Inr response"
    and "tables = find_all (py ''table'') (BeautifulSoup (content response))"
  shows "(raised (scraper get fs) = Some AttributeError \<longrightarrow>
            (\<exists>table \<in> set tables. \<not> list_ex (is_tag (py ''tbody'')) (map fst (descendants (contents table)))))
       \<and> ((\<exists>table \<in> set tables. \<not> list_ex (is_tag (py ''tbody'')) (map fst (descendants (contents table)))) \<longrightarrow>
            raised (scraper get fs) \<noteq> None)
       \<and> ((\<forall>table \<in> set tables. list_ex (is_tag (py ''tbody'')) (contents table)) \<longrightarrow>
            raised (scraper get fs) \<noteq> Some AttributeError)
       \<and> ((\<forall>k \<in> set (content response). encodable_node k) \<longrightarrow>
            (raised (scraper get fs) = Some AttributeError \<longleftrightarrow>
               (\<exists>table \<in> set tables. \<not> list_ex (is_tag (py ''tbody'')) (map fst (descendants (contents table)))))
          \<and> (raised (scraper get fs) = None \<longleftrightarrow>
               (\<forall>table \<in> set tables. list_ex (is_tag (py ''tbody'')) (map fst (descendants (contents table)))))
          \<and> ((\<forall>table \<in> set tables. list_ex (is_tag (py ''tbody'')) (contents table)) \<longrightarrow>
               raised (scraper get fs) = None))"
proof -
  have "scraper get fs = scrape [u] get fs"
    using assms(1) by (simp only: scraper_def)
  then have r: "raised (scraper get fs) = fst (for_each (table_body u) tables [header3])"
    using assms(2,3) by (simp add: scrape_single)
  have 1: "\<exists>table \<in> set tables. \<not> list_ex (is_tag (py ''tbody'')) (map fst (descendants (contents table)))"
    if "raised (scraper get fs) = Some AttributeError"
    using that for_each_tables_AttributeError unfolding r find_None_descendants[symmetric] by blast
  have 2: "raised (scraper get fs) \<noteq> None"
    if "\<exists>table \<in> set tables. \<not> list_ex (is_tag (py ''tbody'')) (map fst (descendants (contents table)))"
    using that for_each_tables_aborts unfolding r find_None_descendants[symmetric] by blast
  have 3: "raised (scraper get fs) \<noteq> Some AttributeError"
    if "\<forall>table \<in> set tables. list_ex (is_tag (py ''tbody'')) (contents table)"
  proof
    assume "raised (scraper get fs) = Some AttributeError"
    then obtain t where "t \<in> set tables" "find (py ''tbody'') t = None"
      using for_each_tables_AttributeError unfolding r by blast
    with that show False using find_child by blast
  qed
  have 4: "(raised (scraper get fs) = Some AttributeError \<longleftrightarrow>
               (\<exists>table \<in> set tables. \<not> list_ex (is_tag (py ''tbody'')) (map fst (descendants (contents table)))))
          \<and> (raised (scraper get fs) = None \<longleftrightarrow>
               (\<forall>table \<in> set tables. list_ex (is_tag (py ''tbody'')) (map fst (descendants (contents table)))))
          \<and> ((\<forall>table \<in> set tables. list_ex (is_tag (py ''tbody'')) (contents table)) \<longrightarrow>
               raised (scraper get fs) = None)"
    if enc: "\<forall>k \<in> set (content response). encodable_node k"
  proof -
    from enc have "encodable_node (BeautifulSoup (content response))"
      by (simp add: BeautifulSoup_def)
    then have "\<forall>t \<in> set tables. encodable_node t"
      using assms(3) find_all_encodable by blast
    then have e: "raised (scraper get fs) =
        (if \<exists>t \<in> set tables. find (py ''tbody'') t = None then Some AttributeError else None)"
      unfolding r using urls_encodable[OF assms(1)] by (rule for_each_tables_encodable)
    have a: "raised (scraper get fs) = Some AttributeError \<longleftrightarrow>
        (\<exists>table \<in> set tables. \<not> list_ex (is_tag (py ''tbody'')) (map fst (descendants (contents table))))"
      unfolding e by (simp add: find_None_descendants)
    have b: "raised (scraper get fs) = None \<longleftrightarrow>
        (\<forall>table \<in> set tables. list_ex (is_tag (py ''tbody'')) (map fst (descendants (contents table))))"
      unfolding e by (simp add: find_None_descendants)
    have c: "raised (scraper get fs) = None"
      if "\<forall>table \<in> set tables. list_ex (is_tag (py ''tbody'')) (contents table)"
      unfolding e using that find_child by auto
    from a b c show ?thesis by blast
  qed
  from 1 2 3 4 show ?thesis by blast
qed

theorem table_strategy_tbody_witness:
  "raised (scraper (page200 [bare_table]) Map.empty) = Some AttributeError \<and>
   raised (scraper (page200 [inner_table]) Map.empty) = None"
proof -
  have 1: "page200 doc (hd urls) = Inr \<lparr>status_code = 200, content = doc\<rparr>" for doc
    by (simp add: page200_def)
  have 2: "[bare_table] = find_all (py ''table'')
      (BeautifulSoup (content \<lparr>status_code = 200, content = [bare_table]\<rparr>))"
    by (simp add: bare_table_def firewall_paragraph_def tree_eval)
  have 3: "[inner_table] = find_all (py ''table'')
      (BeautifulSoup (content \<lparr>status_code = 200, content = [inner_table]\<rparr>))"
    by (simp add: inner_table_def firewall_paragraph_def tree_eval)
  have 4: "\<not> list_ex (is_tag (py ''tbody'')) (map fst (descendants (contents bare_table)))"
    by (simp add: bare_table_def firewall_paragraph_def py_def)
  have 5: "list_ex (is_tag (py ''tbody'')) (contents inner_table)"
    by (simp add: inner_table_def)
  have 6: "\<forall>k \<in> set (content \<lparr>status_code = 200, content = [bare_table]\<rparr>). encodable_node k"
    by (simp add: bare_table_def firewall_paragraph_def encodable_def py_def)
  have 7: "\<forall>k \<in> set (content \<lparr>status_code = 200, content = [inner_table]\<rparr>). encodable_node k"
    by (simp add: inner_table_def firewall_paragraph_def encodable_def py_def)
  from table_strategy_tbody[of "hd urls" "page200 [bare_table]"
          "\<lparr>status_code = 200, content = [bare_table]\<rparr>" "[bare_table]" Map.empty,
          OF urls_single 1 2] 4 6
  have a: "raised (scraper (page200 [bare_table]) Map.empty) = Some AttributeError"
    by simp
  from table_strategy_tbody[of "hd urls" "page200 [inner_table]"
          "\<lparr>status_code = 200, content = [inner_table]\<rparr>" "[inner_table]" Map.empty,
          OF urls_single 1 3] 5 7
  have b: "raised (scraper (page200 [inner_table]) Map.empty) = None"
    by simp
  from a b show ?thesis by simp
qed

text \<open>
  Claim C9 as stated fails: a table with no \<open>tbody\<close> child, whose cell holds a table that
  has one, does not make the run abort. The lookup on the outer table finds the inner
  \<open>tbody\<close>, and the paragraph is written twice, once for each table.
\<close>

theorem table_strategy_nested_tbody_counterexample:
  "\<not> list_ex (is_tag (py ''tbody'')) (contents outer_table) \<and>
   scraper (page200 [outer_table]) Map.empty =
     \<lparr>raised = None,
      files = [terms_csv \<mapsto>
        [header3,
         [py ''Firewall'', py ''a system that monitors network traffic.'', hd urls],
         [py ''Firewall'', py ''a system that monitors network traffic.'', hd urls]]]\<rparr>"
  by (simp add: outer_table_def inner_table_def firewall_paragraph_def table_eval tree_eval header3_def)







section \<open>The fetch\<close>

lemma url_body_with_status: "url_body (with_status code get) u w = url_body get u w"
  by (simp add: url_body_def with_status_def split: sum.splits)

text \<open>
  Claim C6, as amended. Neither script reads the status of the response: with every status
  replaced by any code whatever, 2xx or not, each run ends in the same outcome, so
  extraction proceeds over the body of a non-success response as over any other.
\<close>

theorem status_code_ignored:
  "owasp_scrape (with_status code get) fs = owasp_scrape get fs
   \<and> scraper (with_status code get) fs = scraper get fs"
proof -
  have "url_body (with_status code get) = url_body get"
    by (intro ext) (rule url_body_with_status)
  then have "scraper (with_status code get) fs = scraper get fs"
    by (simp add: scraper_def scrape_def)
  moreover have "owasp_scrape (with_status code get) fs = owasp_scrape get fs"
    by (simp add: owasp_scrape_def with_status_def split: sum.splits)
  ultimately show ?thesis by simp
qed

theorem status_code_ignored_witness:
  "owasp_scrape (page404 two_sections) Map.empty = owasp_scrape (page200 two_sections) Map.empty
   \<and> scraper (page404 [inner_table]) Map.empty = scraper (page200 [inner_table]) Map.empty"
proof -
  have "with_status 404 (page200 doc) = page404 doc" for doc
    by (simp add: with_status_def page200_def page404_def)
  then show ?thesis
    using status_code_ignored[of 404 "page200 two_sections" Map.empty]
      status_code_ignored[of 404 "page200 [inner_table]" Map.empty]
    by simp
qed

text \<open>
  Claim C6 as stated fails: a response of status 404 whose body holds two sections is
  parsed, nothing is raised and both rows are written.
\<close>

theorem non_success_status_counterexample:
  "owasp_scrape (page404 two_sections) Map.empty =
     \<lparr>raised = None,
      files = [owasp_terms_csv \<mapsto>
        [header2, [py ''XSS'', py ''Cross-site scripting.''], [py ''CSRF'', py ''Request forgery.'']]]\<rparr>"
  by (simp add: two_sections_def owasp_eval tree_eval header2_def)

text \<open>
  Claim C7, as amended. When the fetch fails, the run ends with that error before any entry
  row is written. \<open>owasp_scrape.py\<close> fetches before it opens its output file and leaves
  the file system as it was; \<open>scraper.py\<close> opens \<open>terms.csv\<close> and writes the header
  before it fetches, and leaves the file holding the header row alone.
\<close>

theorem fetch_failure:
  "(get url = Inl e \<longrightarrow> owasp_scrape get fs = \<lparr>raised = Some e, files = fs\<rparr>)
   \<and> (urls = [u] \<and> get u = Inl e \<longrightarrow>
        scraper get fs = \<lparr>raised = Some e, files = fs(terms_csv \<mapsto> [header3])\<rparr>)"
proof -
  have "scraper get fs = \<lparr>raised = Some e, files = fs(terms_csv \<mapsto> [header3])\<rparr>"
    if "urls = [u]" "get u = Inl e"
  proof -
    have "scraper get fs = scrape [u] get fs"
      using that(1) by (simp only: scraper_def)
    then show ?thesis using that(2) by (simp add: scrape_single)
  qed
  then show ?thesis by (simp add: owasp_scrape_def)
qed

theorem fetch_failure_witness:
  "owasp_scrape network_down [owasp_terms_csv \<mapsto> [header2]] =
     \<lparr>raised = Some RequestException, files = [owasp_terms_csv \<mapsto> [header2]]\<rparr>
   \<and> scraper network_down [terms_csv \<mapsto> [header3, [py ''a'', py ''b'', py ''c'']]] =
     \<lparr>raised = Some RequestException, files = [terms_csv \<mapsto> [header3]]\<rparr>"
  using fetch_failure[of network_down RequestException "[owasp_terms_csv \<mapsto> [header2]]" "hd urls"]
    fetch_failure[of network_down RequestException
      "[terms_csv \<mapsto> [header3, [py ''a'', py ''b'', py ''c'']]]" "hd urls"]
    urls_single
  by (simp add: network_down_def)

text \<open>
  Claim C7 as stated fails for \<open>scraper.py\<close>: with the network down it leaves a
  \<open>terms.csv\<close> that holds the header row.
\<close>

theorem fetch_failure_header_counterexample:
  "scraper network_down Map.empty =
     \<lparr>raised = Some RequestException, files = [terms_csv \<mapsto> [header3]]\<rparr>"
  by (simp add: scraper_def urls_def scrape_single network_down_def)

section \<open>Trimmed and non-empty fields\<close>

lemma paragraph_rows_entry:
  assumes "r \<in> set (paragraph_rows u p)"
  shows "\<exists>t d. r = [t, d, u] \<and> trimmed t \<and> d \<noteq> [] \<and> trimmed d"
proof (cases "find (py ''strong'') p")
  case None
  with assms show ?thesis by (simp add: paragraph_rows_def)
next
  case (Some a)
  obtain term_tag sibs where a: "a = (term_tag, sibs)" by (cases a) auto
  let ?parts = "filter (\<lambda>part. part \<noteq> [])
      (map (\<lambda>sibling. strip (str sibling)) (filter isinstance_NavigableString sibs))"
  have "trimmed (join (py '' '') ?parts)"
    by (rule trimmed_join) (auto simp: trimmed_strip)
  with assms Some a show ?thesis
    by (auto simp: paragraph_rows_def Let_def trimmed_get_text_strip split: if_splits)
qed

lemma table_body_ok: "table_rows_ok w \<Longrightarrow> table_rows_ok (snd (table_body u t w))"
proof (cases "find (py ''tbody'') t")
  case None
  assume "table_rows_ok w"
  with None show ?thesis by (simp add: table_body_rows)
next
  case (Some a)
  obtain tbody sibs where a: "a = (tbody, sibs)" by (cases a) auto
  assume "table_rows_ok w"
  then obtain rows where w: "w = header3 # rows"
    and ok: "\<forall>r \<in> set rows. \<exists>t d s. r = [t, d, s] \<and> trimmed t \<and> d \<noteq> [] \<and> trimmed d"
    by (auto simp: table_rows_ok_def)
  have s: "snd (table_body u t w) = w @ takeWhile (list_all encodable) (tbody_rows u tbody)"
    using Some a by (simp add: table_body_rows for_each_writerow)
  have "\<exists>t d s. r = [t, d, s] \<and> trimmed t \<and> d \<noteq> [] \<and> trimmed d"
    if "r \<in> set (takeWhile (list_all encodable) (tbody_rows u tbody))" for r
  proof -
    from that have "r \<in> set (tbody_rows u tbody)" by (auto dest: set_takeWhileD)
    then obtain p where "r \<in> set (paragraph_rows u p)"
      using tbody_rows_paragraph by blast
    then show ?thesis using paragraph_rows_entry by blast
  qed
  with w ok s show ?thesis by (auto simp: table_rows_ok_def)
qed

lemma url_body_ok: "table_rows_ok w \<Longrightarrow> table_rows_ok (snd (url_body get u w))"
proof (cases "get u")
  case (Inl e)
  assume "table_rows_ok w"
  with Inl show ?thesis by (simp add: url_body_def)
next
  case (Inr response)
  assume "table_rows_ok w"
  then have "table_rows_ok (snd (for_each (table_body u)
      (find_all (py ''table'') (BeautifulSoup (content response))) w))"
    by (intro for_each_invariant[where I = table_rows_ok] table_body_ok)
  with Inr show ?thesis by (simp add: url_body_def)
qed

lemma scrape_ok: "\<exists>w. files (scrape us get fs) terms_csv = Some w \<and> table_rows_ok w"
proof -
  have "table_rows_ok [header3]"
    by (simp add: table_rows_ok_def)
  then have "table_rows_ok (snd (for_each (url_body get) us [header3]))"
    by (intro for_each_invariant[where I = table_rows_ok] url_body_ok)
  then show ?thesis
    by (auto simp: scrape_def with_open_def and_then_def writerow_header3 split: prod.splits)
qed

lemma section_body_ok: "section_rows_ok w \<Longrightarrow> section_rows_ok (snd (section_body s w))"
  by (auto simp: section_rows_ok_def section_body_entry section_entry_def writerow_def
      trimmed_get_text_strip split: option.splits)

lemma owasp_ok:
  assumes "get url = Inr response"
  shows "\<exists>w. files (owasp_scrape get fs) owasp_terms_csv = Some w \<and> section_rows_ok w"
proof -
  have "section_rows_ok [header2]"
    by (simp add: section_rows_ok_def)
  then have "section_rows_ok (snd (for_each section_body
      (filter (\<lambda>x. is_tag (py ''div'') x \<and> has_class (py ''section'') x)
            (map fst (descendants (content response)))) [header2]))"
    by (intro for_each_invariant[where I = section_rows_ok] section_body_ok)
  then show ?thesis
    by (simp add: owasp_scrape_fetched[of get response fs, OF assms])
qed

lemma untrimmed_match: "pattern_match (py '' A: b .'') (py '' A'') (py ''b '') []"
  by (rule pattern_matchI[where ws = "py '' ''"]) (simp_all add: py_def char_classes)

lemma untrimmed_findall: "findall (py ''x A: b .'') = [(py '' A'', py ''b '')]"
proof -
  have "py ''x A: b .'' = 120 # py '' A: b .''" by (simp add: py_def)
  moreover have "\<not> in_term_class 120" by (simp add: char_classes)
  then have "findall (120 # py '' A: b .'') = findall (py '' A: b .'')"
    by (rule findall_skip)
  ultimately show ?thesis
    by (simp only: findall_match[OF untrimmed_match] findall.simps(1))
qed

text \<open>
  Claim C4, as amended. Every row that \<open>pdf_scraper.py\<close> writes after the header has a
  non-empty term and a non-empty definition (neither need be trimmed). Every row that
  \<open>owasp_scrape.py\<close> writes after the header has a whitespace-trimmed term and a
  whitespace-trimmed definition (either may be empty). Every row that \<open>scraper.py\<close> writes
  after the header has a whitespace-trimmed term (which may be empty) and a non-empty,
  whitespace-trimmed definition.
\<close>

theorem entries_trimmed:
  "(files (pdf_scraper (Pages pages) fs) terms_csv = Some (hdr # rows) \<and> r \<in> set rows \<longrightarrow>
      (\<exists>t d s. r = [t, d, s] \<and> t \<noteq> [] \<and> d \<noteq> []))
   \<and> (get url = Inr response \<and>
       files (owasp_scrape get fs) owasp_terms_csv = Some (hdr # rows) \<and> r \<in> set rows \<longrightarrow>
      (\<exists>t d. r = [t, d] \<and> trimmed t \<and> trimmed d))
   \<and> (files (scraper get fs) terms_csv = Some (hdr # rows) \<and> r \<in> set rows \<longrightarrow>
      (\<exists>t d s. r = [t, d, s] \<and> trimmed t \<and> d \<noteq> [] \<and> trimmed d))"
proof (intro conjI impI)
  assume a: "files (pdf_scraper (Pages pages) fs) terms_csv = Some (hdr # rows) \<and> r \<in> set rows"
  obtain w where "files (pdf_scraper (Pages pages) fs) terms_csv = Some w" "pattern_rows_ok w"
    using pdf_scraper_ok by blast
  with a show "\<exists>t d s. r = [t, d, s] \<and> t \<noteq> [] \<and> d \<noteq> []"
    by (fastforce simp: pattern_rows_ok_def)
next
  assume a: "get url = Inr response \<and>
       files (owasp_scrape get fs) owasp_terms_csv = Some (hdr # rows) \<and> r \<in> set rows"
  then obtain w where "files (owasp_scrape get fs) owasp_terms_csv = Some w" "section_rows_ok w"
    using owasp_ok by blast
  with a show "\<exists>t d. r = [t, d] \<and> trimmed t \<and> trimmed d"
    by (auto simp: section_rows_ok_def)
next
  assume a: "files (scraper get fs) terms_csv = Some (hdr # rows) \<and> r \<in> set rows"
  obtain w where "files (scraper get fs) terms_csv = Some w" "table_rows_ok w"
    using scrape_ok[of urls get fs] by (auto simp: scraper_def)
  with a show "\<exists>t d s. r = [t, d, s] \<and> trimmed t \<and> d \<noteq> [] \<and> trimmed d"
    by (auto simp: table_rows_ok_def)
qed

theorem entries_trimmed_witness:
  "files (pdf_scraper (Pages [Inr (py ''A: b.'')]) Map.empty) terms_csv =
      Some (header3 # [[py ''A'', py ''b'', pdf_name]])
   \<and> (\<exists>t d s. [py ''A'', py ''b'', pdf_name] = [t, d, s] \<and> t \<noteq> [] \<and> d \<noteq> [])
   \<and> files (owasp_scrape (page200 two_sections) Map.empty) owasp_terms_csv =
      Some (header2 # [[py ''XSS'', py ''Cross-site scripting.''], [py ''CSRF'', py ''Request forgery.'']])
   \<and> (\<exists>t d. [py ''XSS'', py ''Cross-site scripting.''] = [t, d] \<and> trimmed t \<and> trimmed d)
   \<and> files (scraper (page200 [inner_table]) Map.empty) terms_csv =
      Some (header3 # [[py ''Firewall'', py ''a system that monitors network traffic.'', hd urls]])
   \<and> (\<exists>t d s. [py ''Firewall'', py ''a system that monitors network traffic.'', hd urls] = [t, d, s] \<and>
         trimmed t \<and> d \<noteq> [] \<and> trimmed d)"
proof -
  have 1: "files (pdf_scraper (Pages [Inr (py ''A: b.'')]) Map.empty) terms_csv =
      Some (header3 # [[py ''A'', py ''b'', pdf_name]])"
    by (simp add: small_scrape)
  have 2: "page200 two_sections url = Inr \<lparr>status_code = 200, content = two_sections\<rparr>"
    by (simp add: page200_def)
  have 3: "files (owasp_scrape (page200 two_sections) Map.empty) owasp_terms_csv =
      Some (header2 # [[py ''XSS'', py ''Cross-site scripting.''], [py ''CSRF'', py ''Request forgery.'']])"
    by (simp add: owasp_two)
  have 4: "files (scraper (page200 [inner_table]) Map.empty) terms_csv =
      Some (header3 # [[py ''Firewall'', py ''a system that monitors network traffic.'', hd urls]])"
    by (simp add: inner_table_def firewall_paragraph_def table_eval tree_eval header3_def)
  from entries_trimmed[where pages = "[Inr (py ''A: b.'')]" and fs = Map.empty and hdr = header3
      and rows = "[[py ''A'', py ''b'', pdf_name]]" and r = "[py ''A'', py ''b'', pdf_name]"] 1
  have a: "\<exists>t d s. [py ''A'', py ''b'', pdf_name] = [t, d, s] \<and> t \<noteq> [] \<and> d \<noteq> []"
    by simp
  from entries_trimmed[where hdr = header2 and fs = Map.empty
      and rows = "[[py ''XSS'', py ''Cross-site scripting.''], [py ''CSRF'', py ''Request forgery.'']]"
      and r = "[py ''XSS'', py ''Cross-site scripting.'']" and get = "page200 two_sections"
      and response = "\<lparr>status_code = 200, content = two_sections\<rparr>"] 2 3
  have b: "\<exists>t d. [py ''XSS'', py ''Cross-site scripting.''] = [t, d] \<and> trimmed t \<and> trimmed d"
    by simp
  from entries_trimmed[where hdr = header3 and fs = Map.empty
      and rows = "[[py ''Firewall'', py ''a system that monitors network traffic.'', hd urls]]"
      and r = "[py ''Firewall'', py ''a system that monitors network traffic.'', hd urls]"
      and get = "page200 [inner_table]"] 4
  have c: "\<exists>t d s. [py ''Firewall'', py ''a system that monitors network traffic.'', hd urls] = [t, d, s] \<and>
         trimmed t \<and> d \<noteq> [] \<and> trimmed d"
    by simp
  from 1 3 4 a b c show ?thesis by blast
qed

text \<open>
  Claim C4 as stated fails in each script: \<open>pdf_scraper.py\<close> writes a term that begins
  with a space and a definition that ends with one; \<open>owasp_scrape.py\<close> writes an empty
  term and an empty definition for a section whose heading and paragraph are empty;
  \<open>scraper.py\<close> writes an empty term for an empty \<open>strong\<close> tag.
\<close>

theorem entries_untrimmed_counterexample:
  "files (pdf_scraper (Pages [Inr (py ''x A: b .'')]) Map.empty) terms_csv =
     Some [header3, [py '' A'', py ''b '', pdf_name]]
   \<and> \<not> trimmed (py '' A'') \<and> \<not> trimmed (py ''b '')
   \<and> files (owasp_scrape (page200 [empty_section]) Map.empty) owasp_terms_csv =
     Some [header2, [[], []]]
   \<and> files (scraper (page200 [unnamed_table]) Map.empty) terms_csv =
     Some [header3, [[], py ''d'', hd urls]]"
proof -
  have 1: "files (pdf_scraper (Pages [Inr (py ''x A: b .'')]) Map.empty) terms_csv =
     Some [header3, [py '' A'', py ''b '', pdf_name]]"
    using pdf_scraper_texts[of "[py ''x A: b .'']" Map.empty]
    by (simp add: page_rows_def untrimmed_findall) (simp add: row_eval)
  have 2: "\<not> trimmed (py '' A'') \<and> \<not> trimmed (py ''b '')"
    by (simp add: trimmed_def strip_def py_def is_space_def)
  have 3: "files (owasp_scrape (page200 [empty_section]) Map.empty) owasp_terms_csv =
     Some [header2, [[], []]]"
    by (simp add: empty_section_def owasp_eval tree_eval header2_def)
  have 4: "files (scraper (page200 [unnamed_table]) Map.empty) terms_csv =
     Some [header3, [[], py ''d'', hd urls]]"
    by (simp add: unnamed_table_def table_eval tree_eval header3_def)
  from 1 2 3 4 show ?thesis by simp
qed

end
